theory Spec2Isabelle
  imports Complex_Main "HOL-Library.Char_ord" "HOL-Library.List_Lexorder" "HOL-Library.Sublist"
begin

section \<open>JavaScript values\<close>

text \<open>
  The tool arguments and the query parameters of \<^verbatim>\<open>src/index.ts\<close> are
  \<^verbatim>\<open>Record<string, unknown>\<close>: objects decoded from JSON. A value is a JSON value
  or \<^verbatim>\<open>undefined\<close> (what reading an absent key gives). Numbers are finite IEEE
  doubles, each of which is a rational number; the operations the program applies to them
  (comparison, \<^verbatim>\<open>Math.min\<close>, the sign of a difference) are exact on doubles,
  so they are modelled on \<open>rat\<close>. Non-finite numbers are not modelled.
  An object value is opaque (\<open>JObj\<close>): the program never looks into one. \<open>JObj\<close> stands
  for an object without a member named \<^verbatim>\<open>toString\<close>, whose string is
  \<^verbatim>\<open>[object Object]\<close>; an object decoded from JSON that has such a member cannot be
  turned into a string (the conversion throws) and is not a value of this model.
\<close>

datatype jsval =
    JUndefined
  | JNull
  | JBool bool
  | JNum rat
  | JStr string
  | JArr "jsval list"
  | JObj

text \<open>An object read by key: \<^verbatim>\<open>params[k]\<close> is \<open>params k\<close>, and \<open>JUndefined\<close> for an absent key.\<close>

type_synonym jsobject = "string \<Rightarrow> jsval"

definition empty_object :: jsobject where
  "empty_object = (\<lambda>k. JUndefined)"

text \<open>
  What the program uses of the JavaScript runtime and cannot be computed from the
  repository: the text of a number (\<^verbatim>\<open>Number::toString\<close>), the locale's collation
  (\<^verbatim>\<open>String.prototype.localeCompare\<close>) and the reading of a string as a number
  (\<^verbatim>\<open>ToNumber\<close> on strings; \<open>None\<close> is \<^verbatim>\<open>NaN\<close>).
\<close>

record host =
  numberToString :: "rat \<Rightarrow> string"
  localeCompare :: "string \<Rightarrow> string \<Rightarrow> int"
  stringToNumber :: "string \<Rightarrow> rat option"

text \<open>\<^verbatim>\<open>if (v)\<close>, \<^verbatim>\<open>v || d\<close>, \<^verbatim>\<open>v && w\<close>: JavaScript's \<^verbatim>\<open>ToBoolean\<close>.\<close>

fun truthy :: "jsval \<Rightarrow> bool" where
  "truthy JUndefined = False"
| "truthy JNull = False"
| "truthy (JBool b) = b"
| "truthy (JNum r) = (r \<noteq> 0)"
| "truthy (JStr s) = (s \<noteq> [])"
| "truthy (JArr xs) = True"
| "truthy JObj = True"

text \<open>\<^verbatim>\<open>Array.prototype.join\<close> on strings.\<close>

fun join :: "string \<Rightarrow> string list \<Rightarrow> string" where
  "join sep [] = []"
| "join sep [x] = x"
| "join sep (x # y # ys) = x @ sep @ join sep (y # ys)"

text \<open>
  \<^verbatim>\<open>`${v}`\<close>: JavaScript's \<^verbatim>\<open>ToString\<close>. An array is its elements joined by a
  comma, \<^verbatim>\<open>null\<close> and \<^verbatim>\<open>undefined\<close> elements giving the empty string.
\<close>

fun to_string :: "host \<Rightarrow> jsval \<Rightarrow> string" where
  "to_string h JUndefined = ''undefined''"
| "to_string h JNull = ''null''"
| "to_string h (JBool b) = (if b then ''true'' else ''false'')"
| "to_string h (JNum r) = numberToString h r"
| "to_string h (JStr s) = s"
| "to_string h (JArr xs) =
     join '','' (map (\<lambda>x. if x = JUndefined \<or> x = JNull then [] else to_string h x) xs)"
| "to_string h JObj = ''[object Object]''"

text \<open>The decimal numeral of an array length, a set size or an HTTP status.\<close>

definition digit :: "nat \<Rightarrow> char" where
  "digit d = ''0123456789'' ! d"

fun show_nat :: "nat \<Rightarrow> string" where
  "show_nat n = (if n < 10 then [digit n] else show_nat (n div 10) @ [digit (n mod 10)])"

declare show_nat.simps [simp del]

definition nl :: string where
  "nl = [CHR 0x0A]"

definition quoted :: "string \<Rightarrow> string" where
  "quoted s = CHR 0x27 # s @ [CHR 0x27]"

section \<open>Filter builder\<close>

text \<open>
  \<^verbatim>\<open>buildFilter\<close> (index.ts 202-227). \<^verbatim>\<open>Object.entries(simpleFilters)\<close> lists the
  pairs in the order the literal declares them; the loop pushes one clause for every pair
  whose parameter is truthy; a truthy \<^verbatim>\<open>customFilter\<close> is pushed last;
  \<^verbatim>\<open>join\<close> turns each element into its string.
\<close>

definition simpleFilters :: "(string \<times> string) list" where
  "simpleFilters =
    [(''serviceName'', ''serviceName''),
     (''serviceFamily'', ''serviceFamily''),
     (''armRegionName'', ''armRegionName''),
     (''armSkuName'', ''armSkuName''),
     (''priceType'', ''priceType''),
     (''productName'', ''productName''),
     (''skuName'', ''skuName''),
     (''meterName'', ''meterName'')]"

definition push_filter :: "host \<Rightarrow> jsobject \<Rightarrow> string list \<Rightarrow> string \<times> string \<Rightarrow> string list" where
  "push_filter h params filters pf =
     (case pf of (param, field) \<Rightarrow>
        if truthy (params param)
        then filters @ [field @ '' eq '' @ quoted (to_string h (params param))]
        else filters)"

definition buildFilter :: "host \<Rightarrow> jsobject \<Rightarrow> string" where
  "buildFilter h params =
     (let filters = foldl (push_filter h params) [] simpleFilters;
          filters = (if truthy (params ''customFilter'')
                     then filters @ [to_string h (params ''customFilter'')]
                     else filters)
      in join '' and '' filters)"

text \<open>
  The specification's words for the same expression: the recognised fields in declaration
  order, one \<open>eq\<close> clause for each field supplied with a non-empty value, the custom
  filter last.
\<close>

definition recognized_fields :: "string list" where
  "recognized_fields =
    [''serviceName'', ''serviceFamily'', ''armRegionName'', ''armSkuName'',
     ''priceType'', ''productName'', ''skuName'', ''meterName'']"

definition eq_clause :: "host \<Rightarrow> jsobject \<Rightarrow> string \<Rightarrow> string" where
  "eq_clause h params field =
     field @ '' eq '' @ [CHR 0x27] @ to_string h (params field) @ [CHR 0x27]"

definition supplied :: "jsobject \<Rightarrow> string list" where
  "supplied params = filter (\<lambda>field. truthy (params field)) recognized_fields"

definition custom_clause :: "host \<Rightarrow> jsobject \<Rightarrow> string list" where
  "custom_clause h params =
     (if truthy (params ''customFilter'') then [to_string h (params ''customFilter'')] else [])"

text \<open>
  A host for the examples: it prints a non-negative whole number in decimal, as
  \<^verbatim>\<open>Number::toString\<close> does, and is used on such numbers only; its collation is the
  order of the code units.
\<close>

definition example_host :: host where
  "example_host = \<lparr> numberToString = (\<lambda>r. show_nat (nat \<lfloor>r\<rfloor>)),
                     localeCompare = (\<lambda>a b. if a < b then - 1 else if a = b then 0 else 1),
                     stringToNumber = (\<lambda>s. None) \<rparr>"

section \<open>Data model\<close>

text \<open>
  \<^verbatim>\<open>PriceItem\<close> and \<^verbatim>\<open>ApiResponse\<close> (index.ts 14-46), field by field. The field
  \<^verbatim>\<open>type\<close> is \<open>itemType\<close> here; the optional fields are options.
\<close>

record SavingsPlan =
  planUnitPrice :: rat
  planRetailPrice :: rat
  planTerm :: string

record PriceItem =
  currencyCode :: string
  tierMinimumUnits :: rat
  retailPrice :: rat
  unitPrice :: rat
  armRegionName :: string
  location :: string
  effectiveStartDate :: string
  meterId :: string
  meterName :: string
  productId :: string
  skuId :: string
  productName :: string
  skuName :: string
  serviceName :: string
  serviceId :: string
  serviceFamily :: string
  unitOfMeasure :: string
  itemType :: string
  isPrimaryMeterRegion :: bool
  armSkuName :: string
  reservationTerm :: "string option"
  savingsPlan :: "SavingsPlan list option"

record ApiResponse =
  BillingCurrency :: string
  CustomerEntityId :: string
  CustomerEntityType :: string
  Items :: "PriceItem list"
  NextPageLink :: "string option"
  Count :: nat

section \<open>The upstream\<close>

text \<open>
  \<^verbatim>\<open>fetch\<close> is network I/O. One call of a tool sees the upstream as the replies it
  gives, in order, to the requests of that call: \<open>pending\<close> holds them, \<open>sent\<close> records
  the requests issued. A reply is either a rejected promise (a transport failure, with the
  message of the error thrown) or an HTTP response with its status, its reason phrase and
  its body; \<^verbatim>\<open>response.json()\<close> either rejects (with a message) or gives a page.
  When no reply is pending the request is never answered and the call does not return
  (the program sets no timeout): the result is \<open>None\<close>.
\<close>

datatype body = Unparsable string | Json ApiResponse

datatype reply = Rejected string | Response nat string body

datatype request = Query "(string \<times> string) list" | Link string

record net =
  pending :: "reply list"
  sent :: "request list"

datatype js_error = Error (message: string)

definition fetch :: "request \<Rightarrow> net \<Rightarrow> (reply \<times> net) option" where
  "fetch req n =
     (case pending n of
        [] \<Rightarrow> None
      | r # rs \<Rightarrow> Some (r, \<lparr> pending = rs, sent = sent n @ [req] \<rparr>))"

text \<open>\<^verbatim>\<open>response.ok\<close>: the status is in the range 200-299.\<close>

definition ok :: "nat \<Rightarrow> bool" where
  "ok status = (200 \<le> status \<and> status \<le> 299)"

section \<open>Paginated fetcher\<close>

definition API_VERSION :: string where
  "API_VERSION = ''2023-01-01-preview''"

text \<open>
  \<^verbatim>\<open>queryAzurePrices\<close> (index.ts 230-253). The request is the list of search parameters set on
  the URL, in the order they are set (the keys are distinct, so \<^verbatim>\<open>set\<close> appends).
\<close>

definition searchParams :: "host \<Rightarrow> jsobject \<Rightarrow> (string \<times> string) list" where
  "searchParams h params =
     [(''api-version'', API_VERSION)]
     @ (if truthy (params ''currencyCode'')
        then [(''currencyCode'', quoted (to_string h (params ''currencyCode'')))] else [])
     @ (if truthy (params ''primaryOnly'') then [(''meterRegion'', quoted ''primary'')] else [])
     @ (let filter = buildFilter h params
        in if filter \<noteq> [] then [(''$filter'', filter)] else [])"

definition queryAzurePrices :: "host \<Rightarrow> jsobject \<Rightarrow> net \<Rightarrow> ((js_error + ApiResponse) \<times> net) option" where
  "queryAzurePrices h params n =
     (case fetch (Query (searchParams h params)) n of
        None \<Rightarrow> None
      | Some (Rejected msg, n') \<Rightarrow> Some (Inl (Error msg), n')
      | Some (Response status statusText b, n') \<Rightarrow>
          if \<not> ok status
          then Some (Inl (Error (''API request failed: '' @ show_nat status @ '' '' @ statusText)), n')
          else (case b of
                  Unparsable msg \<Rightarrow> Some (Inl (Error msg), n')
                | Json response \<Rightarrow> Some (Inr response, n')))"

text \<open>
  A JavaScript number handed on as a cap: \<open>None\<close> is \<^verbatim>\<open>NaN\<close>.
  \<^verbatim>\<open>items.length < maxResults\<close> is false for \<^verbatim>\<open>NaN\<close>.
  \<^verbatim>\<open>items.slice(0, maxResults)\<close> truncates its end towards zero (\<^verbatim>\<open>NaN\<close> is 0),
  counts a negative end from the end of the array, and clamps it to the array.
\<close>

type_synonym jsnum = "rat option"

definition length_below :: "'a list \<Rightarrow> jsnum \<Rightarrow> bool" where
  "length_below xs maxResults =
     (case maxResults of None \<Rightarrow> False | Some m \<Rightarrow> of_nat (length xs) < m)"

definition trunc :: "rat \<Rightarrow> int" where
  "trunc r = (if 0 \<le> r then \<lfloor>r\<rfloor> else \<lceil>r\<rceil>)"

definition slice0 :: "'a list \<Rightarrow> jsnum \<Rightarrow> 'a list" where
  "slice0 xs maxResults =
     (let len = int (length xs);
          relEnd = (case maxResults of None \<Rightarrow> 0 | Some m \<Rightarrow> trunc m);
          final = (if relEnd < 0 then max (len + relEnd) 0 else min relEnd len)
      in take (nat final) xs)"

text \<open>
  The \<^verbatim>\<open>while\<close> loop of \<^verbatim>\<open>fetchWithPagination\<close> (index.ts 264-271) with the
  \<^verbatim>\<open>return\<close> that follows it. The link is followed when it is truthy (neither
  \<^verbatim>\<open>null\<close> nor empty). Each round consumes a reply, so the recursion ends.
\<close>

function paginate ::
  "jsnum \<Rightarrow> ApiResponse \<Rightarrow> PriceItem list \<Rightarrow> net \<Rightarrow> ((js_error + PriceItem list) \<times> net) option" where
  "paginate maxResults response items n =
     (case NextPageLink response of
        None \<Rightarrow> Some (Inr (slice0 items maxResults), n)
      | Some link \<Rightarrow>
          if link \<noteq> [] \<and> length_below items maxResults
          then (case fetch (Link link) n of
                  None \<Rightarrow> None
                | Some (Rejected msg, n') \<Rightarrow> Some (Inl (Error msg), n')
                | Some (Response status statusText b, n') \<Rightarrow>
                    if \<not> ok status
                    then Some (Inr (slice0 items maxResults), n')
                    else (case b of
                            Unparsable msg \<Rightarrow> Some (Inl (Error msg), n')
                          | Json nextPage \<Rightarrow> paginate maxResults nextPage (items @ Items nextPage) n'))
          else Some (Inr (slice0 items maxResults), n))"
  by pat_completeness auto
termination
  by (relation "measure (\<lambda>(maxResults, response, items, n). length (pending n))")
     (auto simp: fetch_def split: list.splits)

declare paginate.simps [simp del]

text \<open>\<^verbatim>\<open>fetchWithPagination\<close> (index.ts 256-272).\<close>

definition fetchWithPagination ::
  "host \<Rightarrow> jsobject \<Rightarrow> jsnum \<Rightarrow> net \<Rightarrow> ((js_error + PriceItem list) \<times> net) option" where
  "fetchWithPagination h params maxResults n =
     (case queryAzurePrices h params n of
        None \<Rightarrow> None
      | Some (Inl e, n') \<Rightarrow> Some (Inl e, n')
      | Some (Inr response, n') \<Rightarrow> paginate maxResults response (Items response) n')"

section \<open>Report formatters\<close>

text \<open>\<^verbatim>\<open>formatPriceItems\<close> (index.ts 275-304).\<close>

definition format_plan :: "host \<Rightarrow> PriceItem \<Rightarrow> SavingsPlan \<Rightarrow> string" where
  "format_plan h item plan =
     nl @ ''    - '' @ planTerm plan @ '': '' @ numberToString h (planRetailPrice plan)
        @ '' '' @ currencyCode item"

definition format_item :: "host \<Rightarrow> PriceItem \<Rightarrow> string" where
  "format_item h item =
     ''**'' @ productName item @ ''** - '' @ skuName item @ nl
     @ ''  - Retail Price: '' @ numberToString h (retailPrice item) @ '' '' @ currencyCode item
        @ ''/'' @ unitOfMeasure item @ nl
     @ ''  - Region: '' @ location item @ '' ('' @ armRegionName item @ '')'' @ nl
     @ ''  - Service: '' @ serviceName item @ '' ('' @ serviceFamily item @ '')'' @ nl
     @ ''  - Type: '' @ itemType item @ nl
     @ ''  - Meter: '' @ meterName item @ nl
     @ ''  - ARM SKU: '' @ (if armSkuName item \<noteq> [] then armSkuName item else ''N/A'')
     @ (case reservationTerm item of
          None \<Rightarrow> []
        | Some t \<Rightarrow> if t \<noteq> [] then nl @ ''  - Reservation Term: '' @ t else [])
     @ (case savingsPlan item of
          None \<Rightarrow> []
        | Some plans \<Rightarrow>
            if length plans > 0
            then nl @ ''  - Savings Plans:'' @ foldl (\<lambda>result plan. result @ format_plan h item plan) [] plans
            else [])"

definition formatPriceItems :: "host \<Rightarrow> PriceItem list \<Rightarrow> string" where
  "formatPriceItems h items =
     (if length items = 0 then ''No prices found matching the criteria.''
      else ''Found '' @ show_nat (length items) @ '' price(s):'' @ nl @ nl
           @ join (nl @ nl) (map (format_item h) items))"

text \<open>
  A \<^verbatim>\<open>Map\<close> iterates in insertion order: it is the list of its entries, a new key added
  at the end. The grouping loops (index.ts 369-374 and 409-414) add an empty group for an
  unseen key and push the item onto the group of its key.
\<close>

definition map_has :: "('k \<times> 'v) list \<Rightarrow> 'k \<Rightarrow> bool" where
  "map_has m k = (k \<in> set (map fst m))"

definition group_step ::
  "(PriceItem \<Rightarrow> string) \<Rightarrow> (string \<times> PriceItem list) list \<Rightarrow> PriceItem \<Rightarrow> (string \<times> PriceItem list) list" where
  "group_step key grouped item =
     (let k = key item;
          grouped = (if \<not> map_has grouped k then grouped @ [(k, [])] else grouped)
      in map (\<lambda>(k', ps). if k' = k then (k', ps @ [item]) else (k', ps)) grouped)"

text \<open>
  \<^verbatim>\<open>Array.prototype.sort\<close> with a comparator. The sort is stable; for a comparator that
  is a consistent ordering its result is the one that stable insertion computes (for an
  inconsistent comparator the language leaves the order to the implementation).
\<close>

fun js_insort :: "('a \<Rightarrow> 'a \<Rightarrow> 'n::{zero,linorder}) \<Rightarrow> 'a \<Rightarrow> 'a list \<Rightarrow> 'a list" where
  "js_insort cmp x [] = [x]"
| "js_insort cmp x (y # ys) = (if cmp x y \<le> 0 then x # y # ys else y # js_insort cmp x ys)"

definition js_sort :: "('a \<Rightarrow> 'a \<Rightarrow> 'n::{zero,linorder}) \<Rightarrow> 'a list \<Rightarrow> 'a list" where
  "js_sort cmp xs = foldr (js_insort cmp) xs []"

text \<open>The \<^verbatim>\<open>compare_vm_prices\<close> case (index.ts 348-387), in the order of the source.\<close>

definition compare_params :: "jsobject \<Rightarrow> jsobject" where
  "compare_params args =
     (let params = empty_object
            (''serviceName'' := JStr ''Virtual Machines'',
             ''priceType'' := (if truthy (args ''priceType'') then args ''priceType'' else JStr ''Consumption''),
             ''currencyCode'' := args ''currencyCode'')
      in if truthy (args ''skuName'') then params(''armSkuName'' := args ''skuName'') else params)"

definition filter_regions :: "jsobject \<Rightarrow> PriceItem list \<Rightarrow> PriceItem list" where
  "filter_regions args items =
     (case args ''regions'' of
        JArr regions \<Rightarrow>
          if length regions > 0
          then filter (\<lambda>item. JStr (armRegionName item) \<in> set regions) items
          else items
      | _ \<Rightarrow> items)"

definition compare_line :: "host \<Rightarrow> PriceItem \<Rightarrow> string" where
  "compare_line h p =
     ''- '' @ armRegionName p @ '': '' @ numberToString h (retailPrice p) @ '' '' @ currencyCode p
     @ ''/'' @ unitOfMeasure p @ '' ('' @ productName p @ '')'' @ nl"

definition compare_group :: "host \<Rightarrow> string \<Rightarrow> string \<times> PriceItem list \<Rightarrow> string" where
  "compare_group h result entry =
     (case entry of (sku, prices) \<Rightarrow>
        let result = result @ ''### '' @ sku @ nl;
            sorted = js_sort (\<lambda>a b. retailPrice a - retailPrice b) prices;
            result = foldl (\<lambda>result p. result @ compare_line h p) result (take 10 sorted)
        in result @ nl)"

definition compare_report :: "host \<Rightarrow> PriceItem list \<Rightarrow> string" where
  "compare_report h filtered =
     (let grouped = foldl (group_step armSkuName) [] filtered;
          result = foldl (compare_group h) (''## VM Price Comparison'' @ nl @ nl) grouped
      in if result \<noteq> [] then result else ''No VM prices found for the specified criteria.'')"

text \<open>The service families (index.ts 307-334) and the \<^verbatim>\<open>get_service_families\<close> case (389-391).\<close>

definition SERVICE_FAMILIES :: "string list" where
  "SERVICE_FAMILIES =
    [''Analytics'', ''Azure Arc'', ''Azure Communication Services'', ''Azure Security'',
     ''Azure Stack'', ''Compute'', ''Containers'', ''Data'', ''Databases'', ''Developer Tools'',
     ''Dynamics'', ''Gaming'', ''Integration'', ''Internet of Things'',
     ''Management and Governance'', ''Microsoft Syntex'', ''Mixed Reality'', ''Networking'',
     ''Other'', ''Power Platform'', ''Quantum Computing'', ''Security'', ''Storage'',
     ''Telecommunications'', ''Web'', ''Windows Virtual Desktop'']"

definition families_report :: string where
  "families_report =
     ''## Azure Service Families'' @ nl @ nl
     @ ''The following service families can be used to filter Azure prices:'' @ nl @ nl
     @ join nl (map (\<lambda>f. ''- '' @ f) SERVICE_FAMILIES)"

text \<open>The \<^verbatim>\<open>get_reservation_prices\<close> case (index.ts 393-426).\<close>

definition reservation_params :: "jsobject \<Rightarrow> jsobject" where
  "reservation_params args =
     empty_object
       (''priceType'' := JStr ''Reservation'',
        ''serviceName'' := args ''serviceName'',
        ''armSkuName'' := args ''armSkuName'',
        ''armRegionName'' := args ''armRegionName'',
        ''currencyCode'' := args ''currencyCode'')"

definition reservation_line :: "host \<Rightarrow> PriceItem \<Rightarrow> string" where
  "reservation_line h p =
     ''- '' @ (case reservationTerm p of None \<Rightarrow> ''N/A'' | Some t \<Rightarrow> if t \<noteq> [] then t else ''N/A'')
     @ '': '' @ numberToString h (retailPrice p) @ '' '' @ currencyCode p @ '' - '' @ location p
     @ '' ('' @ productName p @ '')'' @ nl"

definition reservation_group :: "host \<Rightarrow> string \<Rightarrow> string \<times> PriceItem list \<Rightarrow> string" where
  "reservation_group h result entry =
     (case entry of (sku, prices) \<Rightarrow>
        let result = result @ ''### '' @ sku @ nl;
            result = foldl (\<lambda>result p. result @ reservation_line h p) result prices
        in result @ nl)"

definition reservation_report :: "host \<Rightarrow> PriceItem list \<Rightarrow> string" where
  "reservation_report h items =
     (if length items = 0 then ''No reservation prices found for the specified criteria.''
      else
        let grouped = foldl (group_step (\<lambda>item. if armSkuName item \<noteq> [] then armSkuName item
                                               else skuName item)) [] items
        in foldl (reservation_group h) (''## Reservation Prices'' @ nl @ nl) grouped)"

text \<open>
  The \<^verbatim>\<open>get_services_by_family\<close> case (index.ts 428-468). A \<^verbatim>\<open>Set\<close> is the list of its
  members in insertion order, without repetition. \<^verbatim>\<open>sort()\<close> without a comparator orders
  strings by their code units, which is the lexicographic order of \<open>string\<close>.
\<close>

definition dquoted :: "string \<Rightarrow> string" where
  "dquoted s = CHR 0x22 # s @ [CHR 0x22]"

definition set_add :: "'a list \<Rightarrow> 'a \<Rightarrow> 'a list" where
  "set_add s x = (if x \<in> set s then s else s @ [x])"

definition service_step :: "(string \<times> string list) list \<Rightarrow> PriceItem \<Rightarrow> (string \<times> string list) list" where
  "service_step services item =
     (let services = (if \<not> map_has services (serviceName item)
                      then services @ [(serviceName item, [])] else services)
      in map (\<lambda>(name, products).
                if name = serviceName item then (name, set_add products (productName item))
                else (name, products)) services)"

definition service_section :: "string \<Rightarrow> string \<times> string list \<Rightarrow> string" where
  "service_section result entry =
     (case entry of (name, products) \<Rightarrow>
        let result = result @ ''### '' @ name @ nl;
            result = result @ ''Products ('' @ show_nat (length products) @ ''):'' @ nl;
            sortedProducts = take 20 (sort products);
            result = foldl (\<lambda>result product. result @ ''- '' @ product @ nl) result sortedProducts;
            result = (if length products > 20
                      then result @ ''- ... and '' @ show_nat (length products - 20) @ '' more'' @ nl
                      else result)
        in result @ nl)"

definition services_report :: "host \<Rightarrow> string \<Rightarrow> PriceItem list \<Rightarrow> string" where
  "services_report h family items =
     (let services = foldl service_step [] items;
          result = ''## Services in '' @ dquoted family @ '' Family'' @ nl @ nl;
          result = result @ ''Found '' @ show_nat (length services) @ '' service(s) from ''
                   @ show_nat (length items) @ '' price records:'' @ nl @ nl;
          sortedServices = js_sort (\<lambda>a b. localeCompare h (fst a) (fst b)) services
      in foldl service_section result sortedServices)"

section \<open>Request dispatcher\<close>

text \<open>
  \<^verbatim>\<open>Math.min((args.maxResults as number) || d, cap)\<close> (index.ts 343 and 434). The cast
  does nothing at run time: \<^verbatim>\<open>||\<close> keeps a truthy value whatever its type and
  \<^verbatim>\<open>Math.min\<close> converts it with \<^verbatim>\<open>ToNumber\<close>.
\<close>

definition to_number :: "host \<Rightarrow> jsval \<Rightarrow> jsnum" where
  "to_number h v =
     (case v of
        JUndefined \<Rightarrow> None
      | JNull \<Rightarrow> Some 0
      | JBool b \<Rightarrow> Some (if b then 1 else 0)
      | JNum r \<Rightarrow> Some r
      | JStr s \<Rightarrow> stringToNumber h s
      | JArr xs \<Rightarrow> stringToNumber h (to_string h (JArr xs))
      | JObj \<Rightarrow> None)"

definition math_min :: "jsnum \<Rightarrow> rat \<Rightarrow> jsnum" where
  "math_min a b = (case a of None \<Rightarrow> None | Some x \<Rightarrow> Some (min x b))"

definition capped :: "host \<Rightarrow> jsval \<Rightarrow> rat \<Rightarrow> rat \<Rightarrow> jsnum" where
  "capped h v d cap = math_min (to_number h (if truthy v then v else JNum d)) cap"

text \<open>
  \<^verbatim>\<open>handleToolCall\<close> (index.ts 337-473). The result is \<open>None\<close> while the call awaits a
  reply, \<open>Inl\<close> for a thrown error and \<open>Inr\<close> for the returned text. The request may come
  without \<^verbatim>\<open>arguments\<close>: the handler at index.ts 496-499 passes them on unchecked, so
  \<open>arguments\<close> is \<open>None\<close> for \<^verbatim>\<open>undefined\<close>, and the first \<^verbatim>\<open>args.key\<close> that a case
  evaluates throws the \<^verbatim>\<open>TypeError\<close> of Node: \<^verbatim>\<open>args.maxResults\<close> (343),
  \<^verbatim>\<open>args.priceType\<close> (351), \<^verbatim>\<open>args.serviceName\<close> (396), \<^verbatim>\<open>args.serviceFamily\<close> (429).
\<close>

definition then_report ::
  "((js_error + PriceItem list) \<times> net) option \<Rightarrow> (PriceItem list \<Rightarrow> string) \<Rightarrow> ((js_error + string) \<times> net) option" where
  "then_report fetched report =
     (case fetched of
        None \<Rightarrow> None
      | Some (Inl e, n') \<Rightarrow> Some (Inl e, n')
      | Some (Inr items, n') \<Rightarrow> Some (Inr (report items), n'))"

definition undefined_read :: "string \<Rightarrow> js_error" where
  "undefined_read key =
     Error (''Cannot read properties of undefined (reading '' @ [CHR 0x27] @ key @ [CHR 0x27] @ '')'')"

definition handleToolCall ::
  "host \<Rightarrow> string \<Rightarrow> jsobject option \<Rightarrow> net \<Rightarrow> ((js_error + string) \<times> net) option" where
  "handleToolCall h name arguments n =
     (if name = ''query_azure_prices'' then
        (case arguments of
           None \<Rightarrow> Some (Inl (undefined_read ''maxResults''), n)
         | Some args \<Rightarrow>
             let maxResults = capped h (args ''maxResults'') 100 1000
             in then_report (fetchWithPagination h args maxResults n) (formatPriceItems h))
      else if name = ''compare_vm_prices'' then
        (case arguments of
           None \<Rightarrow> Some (Inl (undefined_read ''priceType''), n)
         | Some args \<Rightarrow>
             then_report (fetchWithPagination h (compare_params args) (Some 500) n)
               (\<lambda>items. compare_report h (filter_regions args items)))
      else if name = ''get_service_families'' then
        Some (Inr families_report, n)
      else if name = ''get_reservation_prices'' then
        (case arguments of
           None \<Rightarrow> Some (Inl (undefined_read ''serviceName''), n)
         | Some args \<Rightarrow>
             then_report (fetchWithPagination h (reservation_params args) (Some 200) n)
               (reservation_report h))
      else if name = ''get_services_by_family'' then
        (case arguments of
           None \<Rightarrow> Some (Inl (undefined_read ''serviceFamily''), n)
         | Some args \<Rightarrow>
             let serviceFamily = args ''serviceFamily''
             in if serviceFamily \<notin> set (map JStr SERVICE_FAMILIES)
                then Some (Inr (''Unknown service family: '' @ dquoted (to_string h serviceFamily)
                                @ ''. Use get_service_families to see valid options.''), n)
                else
                  let maxResults = capped h (args ''maxResults'') 500 2000
                  in then_report
                       (fetchWithPagination h (empty_object(''serviceFamily'' := serviceFamily)) maxResults n)
                       (\<lambda>items. if length items = 0
                                 then ''No services found for service family: '' @ to_string h serviceFamily
                                 else services_report h (to_string h serviceFamily) items))
      else Some (Inl (Error (''Unknown tool: '' @ name)), n))"

text \<open>
  The \<^verbatim>\<open>CallToolRequestSchema\<close> handler (index.ts 495-510): the text of the handler, or
  the message of whatever it threw behind \<open>Error: \<close> with the error flag set. All that the
  pipeline throws is an \<^verbatim>\<open>Error\<close>, so the text is its \<^verbatim>\<open>message\<close>.
\<close>

record tool_result =
  content_text :: string
  isError :: bool

definition call_tool :: "host \<Rightarrow> string \<Rightarrow> jsobject option \<Rightarrow> net \<Rightarrow> (tool_result \<times> net) option" where
  "call_tool h name arguments n =
     (case handleToolCall h name arguments n of
        None \<Rightarrow> None
      | Some (Inr result, n') \<Rightarrow> Some (\<lparr> content_text = result, isError = False \<rparr>, n')
      | Some (Inl error, n') \<Rightarrow> Some (\<lparr> content_text = ''Error: '' @ message error, isError = True \<rparr>, n'))"

definition tool_names :: "string list" where
  "tool_names =
    [''query_azure_prices'', ''compare_vm_prices'', ''get_service_families'',
     ''get_reservation_prices'', ''get_services_by_family'']"

section \<open>Upstreams and items for the statements\<close>

text \<open>
  A page, a successful reply carrying it, an upstream that has not been asked anything yet,
  and the upstream that serves a sequence of pages: every page but the last links to the
  next one.
\<close>

definition page :: "PriceItem list \<Rightarrow> string option \<Rightarrow> ApiResponse" where
  "page items link =
     \<lparr> BillingCurrency = ''USD'', CustomerEntityId = ''Default'', CustomerEntityType = ''Retail'',
       Items = items, NextPageLink = link, Count = length items \<rparr>"

definition ok_reply :: "ApiResponse \<Rightarrow> reply" where
  "ok_reply r = Response 200 ''OK'' (Json r)"

definition upstream :: "reply list \<Rightarrow> net" where
  "upstream replies = \<lparr> pending = replies, sent = [] \<rparr>"

definition next_link :: "'a list \<Rightarrow> string option" where
  "next_link rest = (if rest = [] then None else Some ''https://prices.azure.com/next'')"

fun serve :: "PriceItem list list \<Rightarrow> reply list" where
  "serve [] = []"
| "serve (items # rest) = ok_reply (page items (next_link rest)) # serve rest"

text \<open>
  The pages that arrive from a sequence of replies, in order: the successful replies with a
  readable body, up to the first reply that is not one; and the items they carry.
\<close>

fun pages_of :: "reply list \<Rightarrow> ApiResponse list" where
  "pages_of (Response status statusText (Json r) # rs) = (if ok status then r # pages_of rs else [])"
| "pages_of rs = []"

definition arrival :: "reply list \<Rightarrow> PriceItem list" where
  "arrival rs = concat (map Items (pages_of rs))"

text \<open>A page asks for another fetch when its link is truthy.\<close>

definition has_link :: "ApiResponse \<Rightarrow> bool" where
  "has_link r = (case NextPageLink r of None \<Rightarrow> False | Some link \<Rightarrow> link \<noteq> [])"

text \<open>
  A reply is an HTTP response whose body, when the status is a success, is readable; a reply
  ends the pagination when it is anything but a successful page with a link.
\<close>

fun http_reply :: "reply \<Rightarrow> bool" where
  "http_reply (Rejected msg) = False"
| "http_reply (Response status statusText (Unparsable msg)) = (\<not> ok status)"
| "http_reply (Response status statusText (Json r)) = True"

fun ends_pagination :: "reply \<Rightarrow> bool" where
  "ends_pagination (Response status statusText (Json r)) = (\<not> (ok status \<and> has_link r))"
| "ends_pagination r = True"

text \<open>A reply makes the fetch throw: the promise is rejected, or the body of a success cannot be read.\<close>

fun raises :: "reply \<Rightarrow> string \<Rightarrow> bool" where
  "raises (Rejected m) msg = (m = msg)"
| "raises (Response status statusText (Unparsable m)) msg = (ok status \<and> m = msg)"
| "raises (Response status statusText (Json r)) msg = False"

definition settles :: "reply list \<Rightarrow> bool" where
  "settles rs = (rs \<noteq> [] \<and> ends_pagination (last rs))"

definition blank_item :: PriceItem where
  "blank_item =
     \<lparr> currencyCode = ''USD'', tierMinimumUnits = 0, retailPrice = 0, unitPrice = 0,
       armRegionName = ''eastus'', location = ''US East'', effectiveStartDate = [], meterId = [],
       meterName = [], productId = [], skuId = [], productName = ''Virtual Machines'',
       skuName = [],
       serviceName = [], serviceId = [], serviceFamily = [], unitOfMeasure = ''1 Hour'',
       itemType = ''Consumption'', isPrimaryMeterRegion = False, armSkuName = [],
       reservationTerm = None, savingsPlan = None \<rparr>"

definition vm_item :: "string \<Rightarrow> rat \<Rightarrow> PriceItem" where
  "vm_item sku price = blank_item \<lparr> retailPrice := price, armSkuName := sku \<rparr>"

definition product_item :: "string \<Rightarrow> string \<Rightarrow> PriceItem" where
  "product_item service product = blank_item \<lparr> productName := product, serviceName := service \<rparr>"

text \<open>The keys of a list in the order in which each is first seen.\<close>

fun first_seen :: "'a list \<Rightarrow> 'a list" where
  "first_seen [] = []"
| "first_seen (x # xs) = x # filter (\<lambda>y. y \<noteq> x) (first_seen xs)"

text \<open>The items listed under a SKU heading: the ten cheapest of the SKU, cheapest first.\<close>

definition listed :: "string \<Rightarrow> PriceItem list \<Rightarrow> PriceItem list" where
  "listed sku items = take 10 (sort_key retailPrice (filter (\<lambda>item. armSkuName item = sku) items))"

definition comparison_header :: string where
  "comparison_header = ''## VM Price Comparison'' @ nl @ nl"

text \<open>
  The discovery report in the words of the specification: the distinct service names in
  the order the collation puts them (names that collate alike stay in first-seen order),
  the distinct product names of a service in lexicographic order, and the section of a
  service.
\<close>

definition service_names :: "host \<Rightarrow> PriceItem list \<Rightarrow> string list" where
  "service_names h items = js_sort (localeCompare h) (first_seen (map serviceName items))"

definition products_of :: "string \<Rightarrow> PriceItem list \<Rightarrow> string list" where
  "products_of service items =
     sort (remdups (map productName (filter (\<lambda>item. serviceName item = service) items)))"

definition product_lines :: "string list \<Rightarrow> string" where
  "product_lines products =
     concat (map (\<lambda>product. ''- '' @ product @ ''\<newline>'') (take 20 products))
     @ (if length products > 20
        then ''- ... and '' @ show_nat (length products - 20) @ '' more\<newline>'' else [])"

definition service_block :: "string \<Rightarrow> string list \<Rightarrow> string" where
  "service_block name products =
     ''### '' @ name @ ''\<newline>Products ('' @ show_nat (length products) @ ''):\<newline>''
     @ product_lines products @ ''\<newline>''"

definition summary_line :: "nat \<Rightarrow> nat \<Rightarrow> string" where
  "summary_line services records =
     ''Found '' @ show_nat services @ '' service(s) from '' @ show_nat records
     @ '' price records:\<newline>\<newline>''"

text \<open>A comparator that is a consistent ordering: total and transitive.\<close>

definition consistent :: "('a \<Rightarrow> 'a \<Rightarrow> int) \<Rightarrow> bool" where
  "consistent cmp =
     ((\<forall>a b. cmp a b \<le> 0 \<or> cmp b a \<le> 0)
      \<and> (\<forall>a b c. cmp a b \<le> 0 \<and> cmp b c \<le> 0 \<longrightarrow> cmp a c \<le> 0))"

text \<open>
  A collation that ignores the case of ASCII letters, as the collation behind
  \<^verbatim>\<open>localeCompare\<close> does at its first level (\<^verbatim>\<open>'a'.localeCompare('B')\<close> is negative),
  and a host that has it.
\<close>

definition lower :: "char \<Rightarrow> char" where
  "lower c = (if CHR ''A'' \<le> c \<and> c \<le> CHR ''Z'' then char_of (of_char c + (32::nat)) else c)"

definition caseless_compare :: "string \<Rightarrow> string \<Rightarrow> int" where
  "caseless_compare a b =
     (if map lower a < map lower b then - 1 else if map lower a = map lower b then 0 else 1)"

definition caseless_host :: host where
  "caseless_host = \<lparr> numberToString = (\<lambda>r. ''#''), localeCompare = caseless_compare,
                      stringToNumber = (\<lambda>s. None) \<rparr>"

text \<open>The lines of a text: the pieces between its newline characters.\<close>

fun lines_of :: "string \<Rightarrow> string list" where
  "lines_of [] = [[]]"
| "lines_of (c # cs) =
     (if c = CHR 0x0A then [] # lines_of cs
      else (case lines_of cs of [] \<Rightarrow> [[c]] | l # ls \<Rightarrow> (c # l) # ls))"

section \<open>Properties\<close>

subsection \<open>Filter builder\<close>

lemma foldl_push_filter:
  "foldl (push_filter h params) acc pfs =
     acc @ map (\<lambda>pf. snd pf @ '' eq '' @ quoted (to_string h (params (fst pf))))
               (filter (\<lambda>pf. truthy (params (fst pf))) pfs)"
  by (induction pfs arbitrary: acc) (simp_all add: push_filter_def split: prod.splits)

lemma simpleFilters_fields:
  "map fst simpleFilters = recognized_fields" "map snd simpleFilters = recognized_fields"
  by (simp_all add: simpleFilters_def recognized_fields_def)

lemma filter_same_pairs:
  "\<forall>pf \<in> set pfs. fst pf = snd pf \<Longrightarrow>
   map (\<lambda>pf. snd pf @ e @ quoted (g (fst pf))) (filter (\<lambda>pf. P (fst pf)) pfs) =
   map (\<lambda>f. f @ e @ quoted (g f)) (filter P (map fst pfs))"
  by (induction pfs) auto

lemma buildFilter_spec:
  "buildFilter h params =
     join '' and '' (map (eq_clause h params) (supplied params) @ custom_clause h params)"
proof -
  have same: "\<forall>pf \<in> set simpleFilters. fst pf = snd pf"
    by (simp add: simpleFilters_def)
  have "foldl (push_filter h params) [] simpleFilters =
          map (eq_clause h params) (supplied params)"
    unfolding foldl_push_filter supplied_def
    using filter_same_pairs [OF same, of "'' eq ''" "\<lambda>f. to_string h (params f)" "\<lambda>f. truthy (params f)"]
    by (simp add: simpleFilters_fields eq_clause_def [abs_def] quoted_def)
  then show ?thesis
    by (simp add: buildFilter_def custom_clause_def Let_def)
qed

lemma truthy_iff: "truthy v = (v \<notin> {JUndefined, JNull, JBool False, JNum 0, JStr []})"
  by (cases v) auto

lemma supplied_distinct: "distinct (supplied params)"
  by (simp add: supplied_def recognized_fields_def)

lemma buildFilter_none:
  "supplied params = [] \<Longrightarrow> \<not> truthy (params ''customFilter'') \<Longrightarrow> buildFilter h params = []"
  by (simp add: buildFilter_spec custom_clause_def)

lemma buildFilter_empty_object: "buildFilter h empty_object = []"
  by (rule buildFilter_none) (simp_all add: supplied_def empty_object_def)

lemma buildFilter_custom_only:
  "supplied params = [] \<Longrightarrow> params ''customFilter'' = JStr c \<Longrightarrow> buildFilter h params = c"
  by (cases "c = []") (simp_all add: buildFilter_spec custom_clause_def)

text \<open>
  C4. For every parameter map the expression is the clauses joined by \<open>'' and ''\<close>: one
  \<open>field eq '<value>'\<close> clause for each recognised field whose value is supplied and
  non-empty (truthy: not absent, \<open>null\<close>, \<open>false\<close>, \<open>0\<close> or the empty string), in
  declaration order, each field at most once, then the custom filter verbatim. With no
  field and no custom filter the result is the empty string; with only a custom filter it
  is that string.
\<close>

theorem buildFilter_clauses:
  "buildFilter h params =
     join '' and '' (map (eq_clause h params) (supplied params) @ custom_clause h params)
   \<and> supplied params = filter (\<lambda>field. truthy (params field)) recognized_fields
   \<and> distinct (supplied params)
   \<and> (\<forall>field. eq_clause h params field =
        field @ '' eq '' @ [CHR 0x27] @ to_string h (params field) @ [CHR 0x27])
   \<and> (\<forall>field str. params field = JStr str \<longrightarrow>
        eq_clause h params field = field @ '' eq '' @ [CHR 0x27] @ str @ [CHR 0x27])
   \<and> (\<forall>s. truthy (JStr s) = (s \<noteq> []) \<and> to_string h (JStr s) = s)
   \<and> (\<forall>v. truthy v = (v \<notin> {JUndefined, JNull, JBool False, JNum 0, JStr []}))
   \<and> (supplied params = [] \<and> \<not> truthy (params ''customFilter'') \<longrightarrow> buildFilter h params = [])
   \<and> buildFilter h empty_object = []
   \<and> (\<forall>c. supplied params = [] \<and> params ''customFilter'' = JStr c \<longrightarrow> buildFilter h params = c)"
proof (intro conjI allI impI)
  show "buildFilter h params =
     join '' and '' (map (eq_clause h params) (supplied params) @ custom_clause h params)"
    by (rule buildFilter_spec)
  show "supplied params = filter (\<lambda>field. truthy (params field)) recognized_fields"
    by (simp add: supplied_def)
  show "distinct (supplied params)" by (rule supplied_distinct)
  show "eq_clause h params field =
        field @ '' eq '' @ [CHR 0x27] @ to_string h (params field) @ [CHR 0x27]" for field
    by (simp add: eq_clause_def)
  show "eq_clause h params field = field @ '' eq '' @ [CHR 0x27] @ str @ [CHR 0x27]"
    if "params field = JStr str" for field str
    using that by (simp add: eq_clause_def)
  show "truthy (JStr s) = (s \<noteq> [])" for s by simp
  show "to_string h (JStr s) = s" for s by simp
  show "truthy v = (v \<notin> {JUndefined, JNull, JBool False, JNum 0, JStr []})" for v
    by (rule truthy_iff)
  show "buildFilter h params = []" if "supplied params = [] \<and> \<not> truthy (params ''customFilter'')"
    using that by (simp add: buildFilter_none)
  show "buildFilter h empty_object = []" by (rule buildFilter_empty_object)
  show "buildFilter h params = c" if "supplied params = [] \<and> params ''customFilter'' = JStr c" for c
    using that by (simp add: buildFilter_custom_only)
qed

theorem buildFilter_clauses_witness:
  "buildFilter example_host
     (empty_object(''serviceName'' := JStr ''Virtual Machines'', ''armRegionName'' := JStr ''eastus'',
                   ''skuName'' := JStr [], ''customFilter'' := JStr ''retailPrice lt 1''))
   = ''serviceName eq 'Virtual Machines' and armRegionName eq 'eastus' and retailPrice lt 1''
   \<and> buildFilter example_host (empty_object(''customFilter'' := JStr ''retailPrice lt 1''))
       = ''retailPrice lt 1''
   \<and> buildFilter example_host (empty_object(''skuName'' := JStr [])) = []"
proof (intro conjI)
  let ?p = "empty_object(''serviceName'' := JStr ''Virtual Machines'', ''armRegionName'' := JStr ''eastus'',
                   ''skuName'' := JStr [], ''customFilter'' := JStr ''retailPrice lt 1'')"
  let ?c = "empty_object(''customFilter'' := JStr ''retailPrice lt 1'')"
  let ?e = "empty_object(''skuName'' := JStr [])"
  have 1: "supplied ?p = [''serviceName'', ''armRegionName'']"
    by (simp add: supplied_def recognized_fields_def empty_object_def)
  have 2: "supplied ?c = []"
    by (simp add: supplied_def recognized_fields_def empty_object_def)
  have 3: "supplied ?e = []"
    by (simp add: supplied_def recognized_fields_def empty_object_def)
  have 4: "\<not> truthy (?e ''customFilter'')"
    by (simp add: empty_object_def)
  from buildFilter_clauses [of example_host ?p]
  have "buildFilter example_host ?p =
     join '' and '' (map (eq_clause example_host ?p) (supplied ?p) @ custom_clause example_host ?p)"
    by (rule conjunct1)
  then show "buildFilter example_host ?p
      = ''serviceName eq 'Virtual Machines' and armRegionName eq 'eastus' and retailPrice lt 1''"
    by (simp add: 1 custom_clause_def eq_clause_def)
  from buildFilter_clauses [of example_host ?c]
  have "\<forall>c. supplied ?c = [] \<and> ?c ''customFilter'' = JStr c \<longrightarrow> buildFilter example_host ?c = c"
    by blast
  with 2 show "buildFilter example_host ?c = ''retailPrice lt 1''"
    by simp
  from buildFilter_clauses [of example_host ?e]
  have "supplied ?e = [] \<and> \<not> truthy (?e ''customFilter'') \<longrightarrow> buildFilter example_host ?e = []"
    by blast
  with 3 4 show "buildFilter example_host ?e = []"
    by blast
qed

subsection \<open>The comparison of no items\<close>

lemma fetch_upstream [simp]:
  "fetch req \<lparr> pending = r # rs, sent = s \<rparr> = Some (r, \<lparr> pending = rs, sent = s @ [req] \<rparr>)"
  "fetch req \<lparr> pending = [], sent = s \<rparr> = None"
  by (simp_all add: fetch_def)

lemma compare_report_Nil: "compare_report h [] = comparison_header"
  by (simp add: compare_report_def comparison_header_def)

text \<open>
  C1. When nothing is left to compare (here: the upstream answers with one page without
  items), \<^verbatim>\<open>compare_vm_prices\<close> returns the comparison header alone, not the message
  \<open>No VM prices found for the specified criteria.\<close>: the report is never empty when the
  source tests it (index.ts 376 and 386), so the message is unreachable.
\<close>

theorem compare_vm_prices_empty_result:
  "handleToolCall h ''compare_vm_prices'' (Some empty_object) (upstream [ok_reply (page [] None)])
     = Some (Inr ''## VM Price Comparison\<newline>\<newline>'',
             \<lparr> pending = [],
               sent = [Query [(''api-version'', ''2023-01-01-preview''),
                              (''$filter'',
                               ''serviceName eq 'Virtual Machines' and priceType eq 'Consumption''
                               @ [CHR 0x27])]] \<rparr>)
   \<and> ''## VM Price Comparison\<newline>\<newline>'' \<noteq> ''No VM prices found for the specified criteria.''"
  by (simp add: handleToolCall_def then_report_def fetchWithPagination_def queryAzurePrices_def
     upstream_def ok_reply_def ok_def page_def paginate.simps slice0_def compare_report_Nil
     comparison_header_def filter_regions_def empty_object_def searchParams_def compare_params_def
     buildFilter_spec supplied_def recognized_fields_def eq_clause_def custom_clause_def nl_def
     API_VERSION_def)

subsection \<open>The loop unfolded, and when a call returns\<close>

lemma paginate_stop:
  "\<not> (has_link response \<and> length_below items maxResults) \<Longrightarrow>
   paginate maxResults response items n = Some (Inr (slice0 items maxResults), n)"
  by (subst paginate.simps) (auto simp: has_link_def split: option.splits)

lemma paginate_Nil:
  "has_link response \<Longrightarrow> length_below items maxResults \<Longrightarrow>
   paginate maxResults response items \<lparr> pending = [], sent = s \<rparr> = None"
  by (subst paginate.simps) (auto simp: has_link_def split: option.splits)

lemma paginate_Cons:
  "has_link response \<Longrightarrow> length_below items maxResults \<Longrightarrow>
   paginate maxResults response items \<lparr> pending = r # rs, sent = s \<rparr> =
     (let n' = \<lparr> pending = rs, sent = s @ [Link (the (NextPageLink response))] \<rparr>
      in case r of
           Rejected msg \<Rightarrow> Some (Inl (Error msg), n')
         | Response status statusText b \<Rightarrow>
             if \<not> ok status then Some (Inr (slice0 items maxResults), n')
             else (case b of
                     Unparsable msg \<Rightarrow> Some (Inl (Error msg), n')
                   | Json nextPage \<Rightarrow> paginate maxResults nextPage (items @ Items nextPage) n'))"
  by (subst paginate.simps) (auto simp: has_link_def split: option.splits reply.splits body.splits)

lemma paginate_returns:
  "\<not> has_link response \<or> settles rs \<Longrightarrow>
   paginate maxResults response items \<lparr> pending = rs, sent = s \<rparr> \<noteq> None"
proof (induction rs arbitrary: response items s)
  case Nil
  then show ?case by (simp add: settles_def paginate_stop)
next
  case (Cons r rs)
  show ?case
  proof (cases "has_link response \<and> length_below items maxResults")
    case False
    then show ?thesis by (simp add: paginate_stop)
  next
    case True
    with Cons.prems have st: "settles (r # rs)" by simp
    show ?thesis
    proof (cases r)
      case (Rejected msg)
      with True show ?thesis by (simp add: paginate_Cons Let_def)
    next
      case (Response status statusText b)
      show ?thesis
      proof (cases b)
        case (Unparsable msg)
        with True Response show ?thesis by (simp add: paginate_Cons Let_def)
      next
        case (Json nextPage)
        have "\<not> has_link nextPage \<or> settles rs" if "ok status"
          using st that Response Json by (cases "rs = []") (auto simp: settles_def)
        then have "ok status \<Longrightarrow>
            paginate maxResults nextPage (items @ Items nextPage)
              \<lparr> pending = rs, sent = s @ [Link (the (NextPageLink response))] \<rparr> \<noteq> None"
          by (rule Cons.IH)
        with True Response Json show ?thesis by (simp add: paginate_Cons Let_def)
      qed
    qed
  qed
qed

lemma net_eq: "n = \<lparr> pending = pending n, sent = sent n \<rparr>"
  by simp

lemma fetchWithPagination_returns:
  assumes "settles (pending n)"
  shows "fetchWithPagination h params maxResults n \<noteq> None"
proof -
  obtain r rs where p: "pending n = r # rs"
    using assms by (cases "pending n") (auto simp: settles_def)
  then have n: "n = \<lparr> pending = r # rs, sent = sent n \<rparr>"
    using net_eq [of n] by simp
  have q: "queryAzurePrices h params n \<noteq> None"
    by (subst n) (simp add: queryAzurePrices_def split: reply.splits body.splits)
  show ?thesis
  proof (cases "queryAzurePrices h params n")
    case None
    with q show ?thesis by simp
  next
    case (Some a)
    obtain res n' where a: "a = (res, n')" by (cases a)
    show ?thesis
    proof (cases res)
      case (Inl e)
      with Some a show ?thesis by (simp add: fetchWithPagination_def)
    next
      case (Inr response)
      have pn: "pending n' = rs \<and> (\<exists>status statusText. r = Response status statusText (Json response) \<and> ok status)"
        using Some a Inr
        by (subst (asm) n) (auto simp: queryAzurePrices_def split: reply.splits body.splits if_splits)
      have "\<not> has_link response \<or> settles rs"
        using assms p pn by (cases "rs = []") (auto simp: settles_def)
      then have "paginate maxResults response (Items response) \<lparr> pending = rs, sent = sent n' \<rparr> \<noteq> None"
        by (rule paginate_returns)
      moreover have "n' = \<lparr> pending = rs, sent = sent n' \<rparr>"
        using pn net_eq [of n'] by simp
      ultimately show ?thesis
        using Some a Inr by (simp add: fetchWithPagination_def)
    qed
  qed
qed

lemma then_report_returns:
  "x \<noteq> None \<Longrightarrow> then_report x f \<noteq> None"
  by (auto simp: then_report_def split: option.splits sum.splits prod.splits)

lemma handleToolCall_returns:
  assumes "settles (pending n)"
  shows "\<exists>r n'. handleToolCall h name args n = Some (r, n')"
proof -
  have r: "\<exists>r n'. then_report (fetchWithPagination h p c n) f = Some (r, n')" for p c f
    using then_report_returns [OF fetchWithPagination_returns [OF assms], of h p c f] by auto
  show ?thesis
    unfolding handleToolCall_def Let_def using r by (auto split: option.splits)
qed

subsection \<open>The default cap\<close>






lemma capped_falsy: "\<not> truthy v \<Longrightarrow> capped h v d cap = Some (min d cap)"
  by (simp add: capped_def to_number_def math_min_def)

lemma capped_number: "m \<noteq> 0 \<Longrightarrow> capped h (JNum m) d cap = Some (min m cap)"
  by (simp add: capped_def to_number_def math_min_def)





subsection \<open>Pagination: the cap\<close>

lemma trunc_nonneg: "0 \<le> m \<Longrightarrow> trunc m = \<lfloor>m\<rfloor>"
  by (simp add: trunc_def)

lemma slice0_nonneg: "0 \<le> m \<Longrightarrow> slice0 xs (Some m) = take (nat \<lfloor>m\<rfloor>) xs"
  by (simp add: slice0_def trunc_nonneg Let_def min_def)

lemma slice0_take: "\<exists>k. slice0 xs c = take k xs"
  by (auto simp: slice0_def Let_def)

lemma slice0_prefix: "prefix (slice0 xs c) xs"
  using slice0_take [of xs c] by (auto simp: take_is_prefix)

lemma slice0_length: "0 \<le> m \<Longrightarrow> rat_of_nat (length (slice0 xs (Some m))) \<le> m"
proof -
  assume m: "0 \<le> m"
  have "length (take (nat \<lfloor>m\<rfloor>) xs) \<le> nat \<lfloor>m\<rfloor>" by simp
  then have "rat_of_nat (length (take (nat \<lfloor>m\<rfloor>) xs)) \<le> rat_of_nat (nat \<lfloor>m\<rfloor>)"
    by (simp only: of_nat_le_iff)
  also have "rat_of_nat (nat \<lfloor>m\<rfloor>) = of_int \<lfloor>m\<rfloor>" using m by simp
  also have "\<dots> \<le> m" by (rule of_int_floor_le)
  finally show ?thesis using m by (simp add: slice0_nonneg)
qed

lemma slice0_below: "length_below xs (Some m) \<Longrightarrow> slice0 xs (Some m) = xs"
proof -
  assume "length_below xs (Some m)"
  then have lt: "rat_of_nat (length xs) < m" by (simp add: length_below_def)
  then have m: "0 \<le> m" by (meson less_eq_rat_def of_nat_0_le_iff order_trans less_imp_le)
  have "of_int (int (length xs)) \<le> m" using lt by simp
  then have "int (length xs) \<le> \<lfloor>m\<rfloor>" by (simp only: le_floor_iff)
  then show ?thesis using m by (simp add: slice0_nonneg)
qed

lemma concat_take_prefix: "prefix (concat (map f (take k ps))) (concat (map f ps))"
proof -
  have "concat (map f ps) = concat (map f (take k ps)) @ concat (map f (drop k ps))"
    by (metis append_take_drop_id concat_append map_append)
  then show ?thesis by (simp add: prefix_def)
qed

lemma paginate_result:
  "paginate c response items \<lparr> pending = rs, sent = s \<rparr> = Some (Inr xs, n') \<Longrightarrow>
   \<exists>k. xs = slice0 (items @ concat (map Items (take k (pages_of rs)))) c"
proof (induction rs arbitrary: response items s)
  case Nil
  show ?case
  proof (cases "has_link response \<and> length_below items c")
    case True
    with Nil show ?thesis by (simp add: paginate_Nil)
  next
    case False
    with Nil show ?thesis by (auto simp: paginate_stop)
  qed
next
  case (Cons r rs)
  show ?case
  proof (cases "has_link response \<and> length_below items c")
    case False
    with Cons.prems have "xs = slice0 (items @ concat (map Items (take 0 (pages_of (r # rs))))) c"
      by (simp add: paginate_stop)
    then show ?thesis by blast
  next
    case True
    show ?thesis
    proof (cases r)
      case (Rejected msg)
      with True Cons.prems show ?thesis by (simp add: paginate_Cons Let_def)
    next
      case (Response status statusText b)
      show ?thesis
      proof (cases "ok status")
        case False
        with True Response Cons.prems
        have "xs = slice0 (items @ concat (map Items (take 0 (pages_of (r # rs))))) c"
          by (simp add: paginate_Cons Let_def)
        then show ?thesis by blast
      next
        case ok: True
        show ?thesis
        proof (cases b)
          case (Unparsable msg)
          with True Response ok Cons.prems show ?thesis by (simp add: paginate_Cons Let_def)
        next
          case (Json nextPage)
          with True Response ok Cons.prems
          have "paginate c nextPage (items @ Items nextPage)
                  \<lparr> pending = rs, sent = s @ [Link (the (NextPageLink response))] \<rparr> = Some (Inr xs, n')"
            by (simp add: paginate_Cons Let_def)
          from Cons.IH [OF this] obtain k
            where "xs = slice0 ((items @ Items nextPage) @ concat (map Items (take k (pages_of rs)))) c"
            by blast
          then have "xs = slice0 (items @ concat (map Items (take (Suc k) (pages_of (r # rs))))) c"
            using Response ok Json by simp
          then show ?thesis by blast
        qed
      qed
    qed
  qed
qed

lemma queryAzurePrices_Cons:
  "queryAzurePrices h params \<lparr> pending = r # rs, sent = s \<rparr> =
     (let n' = \<lparr> pending = rs, sent = s @ [Query (searchParams h params)] \<rparr>
      in case r of
           Rejected msg \<Rightarrow> Some (Inl (Error msg), n')
         | Response status statusText b \<Rightarrow>
             if \<not> ok status
             then Some (Inl (Error (''API request failed: '' @ show_nat status @ '' '' @ statusText)), n')
             else (case b of
                     Unparsable msg \<Rightarrow> Some (Inl (Error msg), n')
                   | Json response \<Rightarrow> Some (Inr response, n')))"
  by (simp add: queryAzurePrices_def split: reply.splits body.splits)

lemma fetchWithPagination_Nil:
  "fetchWithPagination h params c \<lparr> pending = [], sent = s \<rparr> = None"
  by (simp add: fetchWithPagination_def queryAzurePrices_def)

lemma fetchWithPagination_Cons:
  "fetchWithPagination h params c \<lparr> pending = r # rs, sent = s \<rparr> =
     (let n' = \<lparr> pending = rs, sent = s @ [Query (searchParams h params)] \<rparr>
      in case r of
           Rejected msg \<Rightarrow> Some (Inl (Error msg), n')
         | Response status statusText b \<Rightarrow>
             if \<not> ok status
             then Some (Inl (Error (''API request failed: '' @ show_nat status @ '' '' @ statusText)), n')
             else (case b of
                     Unparsable msg \<Rightarrow> Some (Inl (Error msg), n')
                   | Json response \<Rightarrow> paginate c response (Items response) n'))"
  by (simp add: fetchWithPagination_def queryAzurePrices_Cons Let_def split: reply.splits body.splits)

lemma fetchWithPagination_result:
  assumes "fetchWithPagination h params c n = Some (Inr xs, n')"
  shows "\<exists>k. xs = slice0 (concat (map Items (take k (pages_of (pending n))))) c"
proof (cases "pending n")
  case Nil
  then have "n = \<lparr> pending = [], sent = sent n \<rparr>" using net_eq [of n] by simp
  with assms fetchWithPagination_Nil [of h params c "sent n"] show ?thesis by simp
next
  case (Cons r rs)
  then have n: "n = \<lparr> pending = r # rs, sent = sent n \<rparr>" using net_eq [of n] by simp
  from assms have f: "fetchWithPagination h params c \<lparr> pending = r # rs, sent = sent n \<rparr> = Some (Inr xs, n')"
    by (subst (asm) n)
  show ?thesis
  proof (cases r)
    case (Rejected msg)
    with f show ?thesis by (simp add: fetchWithPagination_Cons Let_def)
  next
    case (Response status statusText b)
    show ?thesis
    proof (cases "ok status")
      case False
      with f Response show ?thesis by (simp add: fetchWithPagination_Cons Let_def)
    next
      case ok: True
      show ?thesis
      proof (cases b)
        case (Unparsable msg)
        with f Response ok show ?thesis by (simp add: fetchWithPagination_Cons Let_def)
      next
        case (Json response)
        with f Response ok
        have "paginate c response (Items response)
                \<lparr> pending = rs, sent = sent n @ [Query (searchParams h params)] \<rparr> = Some (Inr xs, n')"
          by (simp add: fetchWithPagination_Cons Let_def)
        from paginate_result [OF this] obtain k
          where "xs = slice0 (Items response @ concat (map Items (take k (pages_of rs)))) c"
          by blast
        then have "xs = slice0 (concat (map Items (take (Suc k) (pages_of (pending n))))) c"
          using Cons Response ok Json by simp
        then show ?thesis by blast
      qed
    qed
  qed
qed

lemma fetchWithPagination_prefix:
  assumes "fetchWithPagination h params c n = Some (Inr xs, n')"
  shows "prefix xs (arrival (pending n))"
proof -
  from fetchWithPagination_result [OF assms] obtain k
    where "xs = slice0 (concat (map Items (take k (pages_of (pending n))))) c" by blast
  then have "prefix xs (concat (map Items (take k (pages_of (pending n)))))"
    by (simp add: slice0_prefix)
  also have "prefix \<dots> (arrival (pending n))"
    unfolding arrival_def by (rule concat_take_prefix)
  finally show ?thesis .
qed

lemma fetchWithPagination_length:
  assumes "fetchWithPagination h params (Some m) n = Some (Inr xs, n')" "0 \<le> m"
  shows "rat_of_nat (length xs) \<le> m"
  using fetchWithPagination_result [OF assms(1)] slice0_length [OF assms(2)] by blast

lemma has_link_page: "has_link (page items (next_link rest)) = (rest \<noteq> [])"
  by (simp add: has_link_def page_def next_link_def)

lemma Items_page [simp]: "Items (page items link) = items"
  by (simp add: page_def)

lemma take_append_short: "k \<le> length xs \<Longrightarrow> take k (xs @ ys) = take k xs"
  by simp

lemma paginate_serve:
  "0 \<le> m \<Longrightarrow>
   \<exists>n'. paginate (Some m) (page p (next_link rest)) acc \<lparr> pending = serve rest, sent = s \<rparr>
          = Some (Inr (take (nat \<lfloor>m\<rfloor>) (acc @ concat rest)), n')"
proof (induction rest arbitrary: p acc s)
  case Nil
  then show ?case by (simp add: paginate_stop has_link_page slice0_nonneg)
next
  case (Cons r rest)
  show ?case
  proof (cases "length_below acc (Some m)")
    case True
    have "\<exists>n'. paginate (Some m) (page r (next_link rest)) (acc @ r)
                  \<lparr> pending = serve rest,
                    sent = s @ [Link (the (NextPageLink (page p (next_link (r # rest)))))] \<rparr>
               = Some (Inr (take (nat \<lfloor>m\<rfloor>) ((acc @ r) @ concat rest)), n')"
      using Cons.prems by (rule Cons.IH)
    with True show ?thesis
      by (simp add: paginate_Cons has_link_page ok_reply_def ok_def Let_def)
  next
    case False
    then have "m \<le> rat_of_nat (length acc)" by (simp add: length_below_def)
    then have "\<lfloor>m\<rfloor> \<le> int (length acc)"
      by (metis floor_mono floor_of_nat)
    then have "nat \<lfloor>m\<rfloor> \<le> length acc" by simp
    then have "take (nat \<lfloor>m\<rfloor>) (acc @ concat (r # rest)) = take (nat \<lfloor>m\<rfloor>) acc"
      by (rule take_append_short)
    with False Cons.prems show ?thesis
      by (simp add: paginate_stop slice0_nonneg)
  qed
qed

lemma fetchWithPagination_serve:
  assumes "pages \<noteq> []" "0 \<le> m"
  shows "\<exists>n'. fetchWithPagination h params (Some m) (upstream (serve pages))
               = Some (Inr (take (nat \<lfloor>m\<rfloor>) (concat pages)), n')"
proof -
  obtain p rest where pages: "pages = p # rest" using assms(1) by (cases pages) auto
  from paginate_serve [OF assms(2), of p rest p "[Query (searchParams h params)]"]
  show ?thesis
    by (simp add: pages upstream_def fetchWithPagination_Cons ok_reply_def ok_def Let_def)
qed

lemma fetch_three_pages:
  assumes "length p1 = 50" "length p2 = 50" "length p3 = 50"
  shows "fetchWithPagination h params (Some 120) (upstream (serve [p1, p2, p3]))
         = Some (Inr (take 120 (p1 @ p2 @ p3)),
                 \<lparr> pending = [],
                   sent = [Query (searchParams h params), Link ''https://prices.azure.com/next'',
                           Link ''https://prices.azure.com/next''] \<rparr>)"
proof -
  let ?next = "''https://prices.azure.com/next''"
  have link: "NextPageLink (page p (next_link (q # qs))) = Some ?next" for p :: "PriceItem list" and q :: "PriceItem list" and qs
    by (simp add: page_def next_link_def)
  have 3: "paginate (Some 120) (page p3 (next_link [])) (p1 @ p2 @ p3) n
             = Some (Inr (take 120 (p1 @ p2 @ p3)), n)" for n
    by (simp add: paginate_stop has_link_page slice0_nonneg)
  have "length_below (p1 @ p2) (Some 120)"
    using assms by (simp add: length_below_def)
  then have 2: "paginate (Some 120) (page p2 (next_link [p3])) (p1 @ p2)
                  \<lparr> pending = serve [p3], sent = s \<rparr>
             = Some (Inr (take 120 (p1 @ p2 @ p3)), \<lparr> pending = [], sent = s @ [Link ?next] \<rparr>)" for s
    by (simp add: paginate_Cons has_link_page ok_reply_def ok_def Let_def link 3 del: take_append)
  have "length_below p1 (Some 120)"
    using assms by (simp add: length_below_def)
  then have 1: "paginate (Some 120) (page p1 (next_link [p2, p3])) p1
                  \<lparr> pending = serve [p2, p3], sent = s \<rparr>
             = Some (Inr (take 120 (p1 @ p2 @ p3)),
                     \<lparr> pending = [], sent = s @ [Link ?next, Link ?next] \<rparr>)" for s
    using 2 [of "s @ [Link ?next]"]
    by (simp add: paginate_Cons has_link_page ok_reply_def ok_def Let_def link del: take_append)
  from 1 [of "[Query (searchParams h params)]"] show ?thesis
    by (simp add: upstream_def fetchWithPagination_Cons ok_reply_def ok_def Let_def del: take_append)
qed

text \<open>
  C2, amended. Whenever \<^verbatim>\<open>fetchWithPagination\<close> returns a list, the list is a prefix of
  the items of the arrived pages concatenated in arrival order, for every cap; for a cap
  \<open>m \<ge> 0\<close> its length is at most \<open>m\<close>. Against an upstream that serves a non-empty
  sequence of pages, with a cap \<open>m \<ge> 0\<close>, it does return, and returns exactly the first
  \<open>\<lfloor>m\<rfloor>\<close> items of the concatenated pages. For three pages of 50 items and the cap 120
  it fetches all three pages and returns the first 120 of the 150 items.
\<close>

theorem fetchWithPagination_cap:
  "(\<forall>xs n'. fetchWithPagination h params maxResults n = Some (Inr xs, n') \<longrightarrow>
       prefix xs (arrival (pending n))
       \<and> (\<forall>m. maxResults = Some m \<and> 0 \<le> m \<longrightarrow> rat_of_nat (length xs) \<le> m))
   \<and> (pages \<noteq> [] \<and> 0 \<le> m \<longrightarrow>
       (\<exists>n'. fetchWithPagination h params (Some m) (upstream (serve pages))
              = Some (Inr (take (nat \<lfloor>m\<rfloor>) (concat pages)), n')))
   \<and> (length p1 = 50 \<and> length p2 = 50 \<and> length p3 = 50 \<longrightarrow>
       fetchWithPagination h params (Some 120) (upstream (serve [p1, p2, p3]))
         = Some (Inr (take 120 (p1 @ p2 @ p3)),
                 \<lparr> pending = [],
                   sent = [Query (searchParams h params), Link ''https://prices.azure.com/next'',
                           Link ''https://prices.azure.com/next''] \<rparr>)
       \<and> length (take 120 (p1 @ p2 @ p3)) = 120)"
proof (intro conjI allI impI)
  show "prefix xs (arrival (pending n))"
    if "fetchWithPagination h params maxResults n = Some (Inr xs, n')" for xs n'
    using that by (rule fetchWithPagination_prefix)
  show "rat_of_nat (length xs) \<le> k"
    if "fetchWithPagination h params maxResults n = Some (Inr xs, n')" "maxResults = Some k \<and> 0 \<le> k"
    for xs n' k
    using that fetchWithPagination_length [of h params k n xs n'] by simp
  show "\<exists>n'. fetchWithPagination h params (Some m) (upstream (serve pages))
              = Some (Inr (take (nat \<lfloor>m\<rfloor>) (concat pages)), n')"
    if "pages \<noteq> [] \<and> 0 \<le> m"
    using that fetchWithPagination_serve [of pages m h params] by simp
  show "fetchWithPagination h params (Some 120) (upstream (serve [p1, p2, p3]))
         = Some (Inr (take 120 (p1 @ p2 @ p3)),
                 \<lparr> pending = [],
                   sent = [Query (searchParams h params), Link ''https://prices.azure.com/next'',
                           Link ''https://prices.azure.com/next''] \<rparr>)"
    if "length p1 = 50 \<and> length p2 = 50 \<and> length p3 = 50"
    using that fetch_three_pages [of p1 p2 p3 h params] by simp
  show "length (take 120 (p1 @ p2 @ p3)) = 120"
    if "length p1 = 50 \<and> length p2 = 50 \<and> length p3 = 50"
    using that by simp
qed

theorem fetchWithPagination_cap_witness:
  "fetchWithPagination example_host empty_object (Some 120)
     (upstream (serve [replicate 50 (vm_item ''A'' 1), replicate 50 (vm_item ''B'' 2),
                       replicate 50 (vm_item ''C'' 3)]))
   = Some (Inr (replicate 50 (vm_item ''A'' 1) @ replicate 50 (vm_item ''B'' 2)
                @ replicate 20 (vm_item ''C'' 3)),
           \<lparr> pending = [],
             sent = [Query [(''api-version'', API_VERSION)], Link ''https://prices.azure.com/next'',
                     Link ''https://prices.azure.com/next''] \<rparr>)
   \<and> prefix (replicate 50 (vm_item ''A'' 1) @ replicate 50 (vm_item ''B'' 2)
                @ replicate 20 (vm_item ''C'' 3))
        (replicate 50 (vm_item ''A'' 1) @ replicate 50 (vm_item ''B'' 2)
                @ replicate 50 (vm_item ''C'' 3))
   \<and> (\<exists>n'. fetchWithPagination example_host empty_object (Some 2)
              (upstream (serve [[vm_item ''A'' 1], [vm_item ''B'' 2, vm_item ''C'' 3], [vm_item ''D'' 4]]))
            = Some (Inr [vm_item ''A'' 1, vm_item ''B'' 2], n'))"
proof -
  let ?p1 = "replicate 50 (vm_item ''A'' 1)"
  let ?p2 = "replicate 50 (vm_item ''B'' 2)"
  let ?p3 = "replicate 50 (vm_item ''C'' 3)"
  let ?n = "upstream (serve [?p1, ?p2, ?p3])"
  let ?qs = "[[vm_item ''A'' 1], [vm_item ''B'' 2, vm_item ''C'' 3], [vm_item ''D'' 4]]"
  note inst = fetchWithPagination_cap [of example_host empty_object "Some 120" ?n ?qs 2 ?p1 ?p2 ?p3]
  have len: "length ?p1 = 50 \<and> length ?p2 = 50 \<and> length ?p3 = 50" by simp
  have sp: "searchParams example_host empty_object = [(''api-version'', API_VERSION)]"
    by (simp add: searchParams_def buildFilter_empty_object) (simp add: empty_object_def)
  have tk: "take 120 (?p1 @ ?p2 @ ?p3) = ?p1 @ ?p2 @ replicate 20 (vm_item ''C'' 3)"
    by simp
  have ar: "arrival (pending ?n) = ?p1 @ ?p2 @ ?p3"
    by (simp add: upstream_def arrival_def ok_reply_def ok_def)
  from inst len have run: "fetchWithPagination example_host empty_object (Some 120) ?n
     = Some (Inr (take 120 (?p1 @ ?p2 @ ?p3)),
           \<lparr> pending = [],
             sent = [Query (searchParams example_host empty_object), Link ''https://prices.azure.com/next'',
                     Link ''https://prices.azure.com/next''] \<rparr>)"
    by blast
  from inst run have "prefix (take 120 (?p1 @ ?p2 @ ?p3)) (arrival (pending ?n))"
    by blast
  moreover have "?qs \<noteq> [] \<and> (0::rat) \<le> 2" by simp
  from inst [THEN conjunct2, THEN conjunct1, THEN mp, OF this]
  have "\<exists>n'. fetchWithPagination example_host empty_object (Some 2) (upstream (serve ?qs))
            = Some (Inr (take (nat \<lfloor>2::rat\<rfloor>) (concat ?qs)), n')" .
  ultimately show ?thesis
    using run unfolding tk ar sp by simp
qed

text \<open>
  The claim as first stated, for every cap, fails for a negative one: \<^verbatim>\<open>slice\<close> counts a
  negative end from the end of the array. With \<open>maxResults = -1\<close>, which
  \<^verbatim>\<open>query_azure_prices\<close> hands on as it is, a page of three items gives two items.
\<close>

theorem fetchWithPagination_cap_counterexample:
  "fetchWithPagination example_host empty_object (Some (- 1))
     (upstream (serve [[vm_item ''A'' 1, vm_item ''A'' 2, vm_item ''A'' 3]]))
   = Some (Inr [vm_item ''A'' 1, vm_item ''A'' 2],
           \<lparr> pending = [], sent = [Query [(''api-version'', API_VERSION)]] \<rparr>)
   \<and> \<not> rat_of_nat (length [vm_item ''A'' 1, vm_item ''A'' 2]) \<le> - 1
   \<and> capped example_host (JNum (- 1)) 100 1000 = Some (- 1)"
proof -
  have sp: "searchParams example_host empty_object = [(''api-version'', API_VERSION)]"
    by (simp add: searchParams_def buildFilter_empty_object) (simp add: empty_object_def)
  have sl: "slice0 [vm_item ''A'' 1, vm_item ''A'' 2, vm_item ''A'' 3] (Some (- 1))
            = [vm_item ''A'' 1, vm_item ''A'' 2]"
  proof -
    have "\<lceil>- 1 :: rat\<rceil> = - 1"
      using ceiling_of_int [of "- 1", where ?'a = rat] by simp
    then show ?thesis by (simp add: slice0_def trunc_def)
  qed
  show ?thesis
    by (simp add: upstream_def fetchWithPagination_Cons ok_reply_def ok_def sp paginate_stop
        has_link_page sl capped_number)
qed

subsection \<open>Pagination: errors\<close>

lemma paginate_no_error:
  "list_all http_reply rs \<Longrightarrow>
   paginate c response items \<lparr> pending = rs, sent = s \<rparr> \<noteq> Some (Inl e, n')"
proof (induction rs arbitrary: response items s)
  case Nil
  show ?case
    by (cases "has_link response \<and> length_below items c") (simp_all add: paginate_Nil paginate_stop)
next
  case (Cons r rs)
  show ?case
  proof (cases "has_link response \<and> length_below items c")
    case False
    then show ?thesis by (simp add: paginate_stop)
  next
    case True
    show ?thesis
    proof (cases r)
      case (Rejected msg)
      with Cons.prems show ?thesis by simp
    next
      case (Response status statusText b)
      show ?thesis
      proof (cases b)
        case (Unparsable msg)
        with True Response Cons.prems show ?thesis by (simp add: paginate_Cons Let_def)
      next
        case (Json nextPage)
        from Cons.prems have "list_all http_reply rs" by simp
        then have "paginate c nextPage (items @ Items nextPage)
                     \<lparr> pending = rs, sent = s @ [Link (the (NextPageLink response))] \<rparr> \<noteq> Some (Inl e, n')"
          by (rule Cons.IH)
        with True Response Json show ?thesis by (simp add: paginate_Cons Let_def)
      qed
    qed
  qed
qed

lemma fetch_initial_failure:
  assumes "pending n = Response status statusText b # rs" "\<not> ok status"
  shows "fetchWithPagination h params c n
         = Some (Inl (Error (''API request failed: '' @ show_nat status @ '' '' @ statusText)),
                 \<lparr> pending = rs, sent = sent n @ [Query (searchParams h params)] \<rparr>)"
proof -
  have "n = \<lparr> pending = Response status statusText b # rs, sent = sent n \<rparr>"
    using assms(1) net_eq [of n] by simp
  then have "fetchWithPagination h params c n
       = fetchWithPagination h params c \<lparr> pending = Response status statusText b # rs, sent = sent n \<rparr>"
    by simp
  then show ?thesis using assms(2) by (simp add: fetchWithPagination_Cons Let_def)
qed

lemma fetch_error_only_initial:
  assumes "list_all http_reply (pending n)" "fetchWithPagination h params c n = Some (Inl e, n')"
  shows "\<exists>status statusText b rs. pending n = Response status statusText b # rs \<and> \<not> ok status"
proof (cases "pending n")
  case Nil
  then have "n = \<lparr> pending = [], sent = sent n \<rparr>" using net_eq [of n] by simp
  with assms(2) fetchWithPagination_Nil [of h params c "sent n"] show ?thesis by simp
next
  case (Cons r rs)
  then have n: "n = \<lparr> pending = r # rs, sent = sent n \<rparr>" using net_eq [of n] by simp
  from assms(2) have f: "fetchWithPagination h params c \<lparr> pending = r # rs, sent = sent n \<rparr> = Some (Inl e, n')"
    by (subst (asm) n)
  from assms(1) Cons have hr: "http_reply r" and hrs: "list_all http_reply rs" by simp_all
  show ?thesis
  proof (cases r)
    case (Rejected msg)
    with hr show ?thesis by simp
  next
    case (Response status statusText b)
    show ?thesis
    proof (cases "ok status")
      case False
      with Cons Response show ?thesis by blast
    next
      case ok: True
      show ?thesis
      proof (cases b)
        case (Unparsable msg)
        with hr Response ok show ?thesis by simp
      next
        case (Json response)
        with f Response ok paginate_no_error [OF hrs, of c response "Items response"
            "sent n @ [Query (searchParams h params)]" e n']
        show ?thesis by (simp add: fetchWithPagination_Cons Let_def)
      qed
    qed
  qed
qed

lemma paginate_Cons_ok:
  "has_link response \<Longrightarrow> length_below items maxResults \<Longrightarrow>
   paginate maxResults response items \<lparr> pending = ok_reply p # rs, sent = s \<rparr>
   = paginate maxResults p (items @ Items p)
       \<lparr> pending = rs, sent = s @ [Link (the (NextPageLink response))] \<rparr>"
  by (simp add: paginate_Cons Let_def ok_reply_def ok_def)

lemma fetchWithPagination_Cons_ok:
  "fetchWithPagination h params c \<lparr> pending = ok_reply p # rs, sent = s \<rparr>
   = paginate c p (Items p) \<lparr> pending = rs, sent = s @ [Query (searchParams h params)] \<rparr>"
  by (simp add: fetchWithPagination_Cons Let_def ok_reply_def ok_def)

lemma paginate_break:
  "has_link response \<Longrightarrow> list_all has_link pages \<Longrightarrow> \<not> ok status \<Longrightarrow>
   rat_of_nat (length (items @ concat (map Items pages))) < m \<Longrightarrow>
   \<exists>s'. paginate (Some m) response items
          \<lparr> pending = map ok_reply pages @ Response status statusText b # rest, sent = s \<rparr>
        = Some (Inr (items @ concat (map Items pages)), \<lparr> pending = rest, sent = s' \<rparr>)"
proof (induction pages arbitrary: response items s)
  case Nil
  then have lb: "length_below items (Some m)" by (simp add: length_below_def)
  with Nil show ?case by (simp add: paginate_Cons Let_def slice0_below)
next
  case (Cons p pages)
  have "rat_of_nat (length items) \<le> rat_of_nat (length (items @ concat (map Items (p # pages))))"
    by (simp only: of_nat_le_iff) simp
  with Cons.prems(4) have lb: "length_below items (Some m)" by (simp add: length_below_def)
  from Cons.prems have "\<exists>s'. paginate (Some m) p (items @ Items p)
          \<lparr> pending = map ok_reply pages @ Response status statusText b # rest,
            sent = s @ [Link (the (NextPageLink response))] \<rparr>
        = Some (Inr ((items @ Items p) @ concat (map Items pages)), \<lparr> pending = rest, sent = s' \<rparr>)"
    by (intro Cons.IH) simp_all
  with Cons.prems(1) lb show ?case
    by (simp add: paginate_Cons_ok)
qed

lemma fetch_later_failure:
  assumes "pending n = map ok_reply (first # pages) @ Response status statusText b # rest"
    "list_all has_link (first # pages)" "\<not> ok status"
    "rat_of_nat (length (concat (map Items (first # pages)))) < m"
  shows "\<exists>s'. fetchWithPagination h params (Some m) n
              = Some (Inr (concat (map Items (first # pages))), \<lparr> pending = rest, sent = s' \<rparr>)"
proof -
  let ?rs = "map ok_reply pages @ Response status statusText b # rest"
  have "n = \<lparr> pending = ok_reply first # ?rs, sent = sent n \<rparr>"
    using assms(1) net_eq [of n] by simp
  then have "fetchWithPagination h params (Some m) n
       = fetchWithPagination h params (Some m) \<lparr> pending = ok_reply first # ?rs, sent = sent n \<rparr>"
    by simp
  moreover from assms
  have "\<exists>s'. paginate (Some m) first (Items first)
          \<lparr> pending = ?rs, sent = sent n @ [Query (searchParams h params)] \<rparr>
        = Some (Inr (Items first @ concat (map Items pages)), \<lparr> pending = rest, sent = s' \<rparr>)"
    by (intro paginate_break) simp_all
  ultimately show ?thesis
    by (simp add: fetchWithPagination_Cons_ok)
qed

lemma paginate_raise:
  "has_link response \<Longrightarrow> list_all has_link pages \<Longrightarrow> raises r msg \<Longrightarrow>
   rat_of_nat (length (items @ concat (map Items pages))) < m \<Longrightarrow>
   \<exists>s'. paginate (Some m) response items
          \<lparr> pending = map ok_reply pages @ r # rest, sent = s \<rparr>
        = Some (Inl (Error msg), \<lparr> pending = rest, sent = s' \<rparr>)"
proof (induction pages arbitrary: response items s)
  case Nil
  then have lb: "length_below items (Some m)" by (simp add: length_below_def)
  with Nil show ?case
    by (cases r rule: http_reply.cases) (simp_all add: paginate_Cons Let_def)
next
  case (Cons p pages)
  have "rat_of_nat (length items) \<le> rat_of_nat (length (items @ concat (map Items (p # pages))))"
    by (simp only: of_nat_le_iff) simp
  with Cons.prems(4) have lb: "length_below items (Some m)" by (simp add: length_below_def)
  from Cons.prems have "\<exists>s'. paginate (Some m) p (items @ Items p)
          \<lparr> pending = map ok_reply pages @ r # rest,
            sent = s @ [Link (the (NextPageLink response))] \<rparr>
        = Some (Inl (Error msg), \<lparr> pending = rest, sent = s' \<rparr>)"
    by (intro Cons.IH) simp_all
  with Cons.prems(1) lb show ?case
    by (simp add: paginate_Cons_ok)
qed

lemma fetch_initial_raise:
  assumes "pending n = r # rs" "raises r msg"
  shows "fetchWithPagination h params c n
         = Some (Inl (Error msg), \<lparr> pending = rs, sent = sent n @ [Query (searchParams h params)] \<rparr>)"
proof -
  have "n = \<lparr> pending = r # rs, sent = sent n \<rparr>"
    using assms(1) net_eq [of n] by simp
  then have "fetchWithPagination h params c n
       = fetchWithPagination h params c \<lparr> pending = r # rs, sent = sent n \<rparr>"
    by simp
  then show ?thesis using assms(2)
    by (cases r rule: http_reply.cases) (simp_all add: fetchWithPagination_Cons Let_def)
qed

lemma fetch_later_raise:
  assumes "pending n = map ok_reply (first # pages) @ r # rest"
    "list_all has_link (first # pages)" "raises r msg"
    "rat_of_nat (length (concat (map Items (first # pages)))) < m"
  shows "\<exists>s'. fetchWithPagination h params (Some m) n
              = Some (Inl (Error msg), \<lparr> pending = rest, sent = s' \<rparr>)"
proof -
  let ?rs = "map ok_reply pages @ r # rest"
  have "n = \<lparr> pending = ok_reply first # ?rs, sent = sent n \<rparr>"
    using assms(1) net_eq [of n] by simp
  then have "fetchWithPagination h params (Some m) n
       = fetchWithPagination h params (Some m) \<lparr> pending = ok_reply first # ?rs, sent = sent n \<rparr>"
    by simp
  moreover from assms
  have "\<exists>s'. paginate (Some m) first (Items first)
          \<lparr> pending = ?rs, sent = sent n @ [Query (searchParams h params)] \<rparr>
        = Some (Inl (Error msg), \<lparr> pending = rest, sent = s' \<rparr>)"
    by (intro paginate_raise) simp_all
  ultimately show ?thesis
    by (simp add: fetchWithPagination_Cons_ok)
qed

text \<open>
  C3, amended. A non-success status on the initial request makes \<^verbatim>\<open>fetchWithPagination\<close>
  raise \<open>API request failed: <status> <reason>\<close>. A non-success status on a later page raises
  nothing: the pagination stops and exactly the items accumulated so far are returned. When
  every fetch is answered by an HTTP response whose body, if read, is readable, an error is
  raised if and only if the initial status is a non-success; a rejected fetch or an
  unreadable body, on any page, raises too.
\<close>

theorem fetchWithPagination_errors:
  "(pending n = Response status statusText b # rs \<and> \<not> ok status \<longrightarrow>
      fetchWithPagination h params c n
        = Some (Inl (Error (''API request failed: '' @ show_nat status @ '' '' @ statusText)),
                \<lparr> pending = rs, sent = sent n @ [Query (searchParams h params)] \<rparr>))
   \<and> (list_all http_reply (pending n) \<longrightarrow>
        ((\<exists>e n'. fetchWithPagination h params c n = Some (Inl e, n'))
         \<longleftrightarrow> (\<exists>st reason bd rest. pending n = Response st reason bd # rest \<and> \<not> ok st)))
   \<and> (pending n = map ok_reply (first # pages) @ Response status statusText b # rs
        \<and> list_all has_link (first # pages) \<and> \<not> ok status
        \<and> rat_of_nat (length (concat (map Items (first # pages)))) < m \<longrightarrow>
        (\<exists>s'. fetchWithPagination h params (Some m) n
               = Some (Inr (concat (map Items (first # pages))), \<lparr> pending = rs, sent = s' \<rparr>)))
   \<and> (pending n = r # rs \<and> raises r msg \<longrightarrow>
        fetchWithPagination h params c n
          = Some (Inl (Error msg), \<lparr> pending = rs, sent = sent n @ [Query (searchParams h params)] \<rparr>))
   \<and> (pending n = map ok_reply (first # pages) @ r # rs
        \<and> list_all has_link (first # pages) \<and> raises r msg
        \<and> rat_of_nat (length (concat (map Items (first # pages)))) < m \<longrightarrow>
        (\<exists>s'. fetchWithPagination h params (Some m) n
               = Some (Inl (Error msg), \<lparr> pending = rs, sent = s' \<rparr>)))
   \<and> (\<forall>reply. raises reply msg \<longleftrightarrow>
        reply = Rejected msg
        \<or> (\<exists>st reason. reply = Response st reason (Unparsable msg) \<and> ok st))"
proof (intro conjI impI allI)
  show "fetchWithPagination h params c n
        = Some (Inl (Error (''API request failed: '' @ show_nat status @ '' '' @ statusText)),
                \<lparr> pending = rs, sent = sent n @ [Query (searchParams h params)] \<rparr>)"
    if "pending n = Response status statusText b # rs \<and> \<not> ok status"
    using that fetch_initial_failure [of n status statusText b rs h params c] by simp
  show "(\<exists>e n'. fetchWithPagination h params c n = Some (Inl e, n'))
         \<longleftrightarrow> (\<exists>st reason bd rest. pending n = Response st reason bd # rest \<and> \<not> ok st)"
    if hr: "list_all http_reply (pending n)"
  proof
    assume "\<exists>e n'. fetchWithPagination h params c n = Some (Inl e, n')"
    then obtain e n' where "fetchWithPagination h params c n = Some (Inl e, n')" by blast
    with hr show "\<exists>st reason bd rest. pending n = Response st reason bd # rest \<and> \<not> ok st"
      by (rule fetch_error_only_initial)
  next
    assume "\<exists>st reason bd rest. pending n = Response st reason bd # rest \<and> \<not> ok st"
    then obtain st reason bd rest where "pending n = Response st reason bd # rest" "\<not> ok st" by blast
    from fetch_initial_failure [OF this, of h params c]
    show "\<exists>e n'. fetchWithPagination h params c n = Some (Inl e, n')" by blast
  qed
  show "\<exists>s'. fetchWithPagination h params (Some m) n
               = Some (Inr (concat (map Items (first # pages))), \<lparr> pending = rs, sent = s' \<rparr>)"
    if "pending n = map ok_reply (first # pages) @ Response status statusText b # rs
        \<and> list_all has_link (first # pages) \<and> \<not> ok status
        \<and> rat_of_nat (length (concat (map Items (first # pages)))) < m"
    using that fetch_later_failure [of n first pages status statusText b rs m h params] by blast
  show "fetchWithPagination h params c n
          = Some (Inl (Error msg), \<lparr> pending = rs, sent = sent n @ [Query (searchParams h params)] \<rparr>)"
    if "pending n = r # rs \<and> raises r msg"
    using that fetch_initial_raise [of n r rs msg h params c] by blast
  show "\<exists>s'. fetchWithPagination h params (Some m) n
               = Some (Inl (Error msg), \<lparr> pending = rs, sent = s' \<rparr>)"
    if "pending n = map ok_reply (first # pages) @ r # rs
        \<and> list_all has_link (first # pages) \<and> raises r msg
        \<and> rat_of_nat (length (concat (map Items (first # pages)))) < m"
    using that fetch_later_raise [of n first pages r rs msg m h params] by blast
  show "raises reply msg \<longleftrightarrow>
        reply = Rejected msg
        \<or> (\<exists>st reason. reply = Response st reason (Unparsable msg) \<and> ok st)" for reply
    by (cases reply rule: http_reply.cases) auto
qed

theorem fetchWithPagination_errors_witness:
  "fetchWithPagination example_host empty_object (Some 100)
     (upstream [Response 404 ''Not Found'' (Unparsable [])])
   = Some (Inl (Error ''API request failed: 404 Not Found''),
           \<lparr> pending = [], sent = [Query [(''api-version'', API_VERSION)]] \<rparr>)
   \<and> (\<exists>s'. fetchWithPagination example_host empty_object (Some 100)
          (upstream [ok_reply (page [vm_item ''A'' 1, vm_item ''B'' 2] (Some ''https://prices.azure.com/next'')),
                     Response 500 ''Internal Server Error'' (Unparsable [])])
        = Some (Inr [vm_item ''A'' 1, vm_item ''B'' 2], \<lparr> pending = [], sent = s' \<rparr>))
   \<and> \<not> (\<exists>e n'. fetchWithPagination example_host empty_object (Some 100)
          (upstream [ok_reply (page [vm_item ''A'' 1, vm_item ''B'' 2] (Some ''https://prices.azure.com/next'')),
                     Response 500 ''Internal Server Error'' (Unparsable [])])
        = Some (Inl e, n'))
   \<and> fetchWithPagination example_host empty_object (Some 100) (upstream [Rejected ''fetch failed''])
     = Some (Inl (Error ''fetch failed''),
             \<lparr> pending = [], sent = [Query [(''api-version'', API_VERSION)]] \<rparr>)
   \<and> (\<exists>s'. fetchWithPagination example_host empty_object (Some 100)
          (upstream [ok_reply (page [vm_item ''A'' 1, vm_item ''B'' 2] (Some ''https://prices.azure.com/next'')),
                     Response 200 ''OK'' (Unparsable ''Unexpected end of JSON input'')])
        = Some (Inl (Error ''Unexpected end of JSON input''), \<lparr> pending = [], sent = s' \<rparr>))"
proof (intro conjI)
  let ?first = "page [vm_item ''A'' 1, vm_item ''B'' 2] (Some ''https://prices.azure.com/next'')"
  let ?n1 = "upstream [Response 404 ''Not Found'' (Unparsable [])]"
  let ?n2 = "upstream [ok_reply ?first, Response 500 ''Internal Server Error'' (Unparsable [])]"
  let ?n3 = "upstream [Rejected ''fetch failed'']"
  let ?bad = "Response 200 ''OK'' (Unparsable ''Unexpected end of JSON input'')"
  let ?n4 = "upstream [ok_reply ?first, ?bad]"
  have sp: "searchParams example_host empty_object = [(''api-version'', API_VERSION)]"
    by (simp add: searchParams_def buildFilter_empty_object) (simp add: empty_object_def)
  have sn: "show_nat 404 = ''404''" by code_simp
  have "pending ?n1 = Response 404 ''Not Found'' (Unparsable []) # [] \<and> \<not> ok 404"
    by (simp add: upstream_def ok_def)
  from fetchWithPagination_errors [THEN conjunct1, THEN mp, OF this, of example_host empty_object "Some 100"]
  show "fetchWithPagination example_host empty_object (Some 100) ?n1
   = Some (Inl (Error ''API request failed: 404 Not Found''),
           \<lparr> pending = [], sent = [Query [(''api-version'', API_VERSION)]] \<rparr>)"
    by (simp add: sp sn upstream_def)
  have "pending ?n2 = map ok_reply (?first # []) @ Response 500 ''Internal Server Error'' (Unparsable []) # []
        \<and> list_all has_link (?first # []) \<and> \<not> ok 500
        \<and> rat_of_nat (length (concat (map Items (?first # [])))) < 100"
    by (simp add: upstream_def ok_def has_link_def page_def)
  from fetchWithPagination_errors [THEN conjunct2, THEN conjunct2, THEN conjunct1, THEN mp, OF this,
      of example_host empty_object]
  show "\<exists>s'. fetchWithPagination example_host empty_object (Some 100) ?n2
        = Some (Inr [vm_item ''A'' 1, vm_item ''B'' 2], \<lparr> pending = [], sent = s' \<rparr>)"
    by simp
  have "list_all http_reply (pending ?n2)"
    by (simp add: upstream_def ok_reply_def ok_def)
  from fetchWithPagination_errors [THEN conjunct2, THEN conjunct1, THEN mp, OF this, of example_host empty_object "Some 100"]
  show "\<not> (\<exists>e n'. fetchWithPagination example_host empty_object (Some 100) ?n2 = Some (Inl e, n'))"
    by (simp add: upstream_def ok_reply_def ok_def)
  have "pending ?n3 = Rejected ''fetch failed'' # [] \<and> raises (Rejected ''fetch failed'') ''fetch failed''"
    by (simp add: upstream_def)
  from fetchWithPagination_errors [THEN conjunct2, THEN conjunct2, THEN conjunct2, THEN conjunct1,
      THEN mp, OF this, of example_host empty_object "Some 100"]
  show "fetchWithPagination example_host empty_object (Some 100) ?n3
     = Some (Inl (Error ''fetch failed''),
             \<lparr> pending = [], sent = [Query [(''api-version'', API_VERSION)]] \<rparr>)"
    by (simp add: sp upstream_def)
  have "pending ?n4 = map ok_reply (?first # []) @ ?bad # []
        \<and> list_all has_link (?first # []) \<and> raises ?bad ''Unexpected end of JSON input''
        \<and> rat_of_nat (length (concat (map Items (?first # [])))) < 100"
    by (simp add: upstream_def ok_def has_link_def page_def)
  from fetchWithPagination_errors [THEN conjunct2, THEN conjunct2, THEN conjunct2, THEN conjunct2,
      THEN conjunct1, THEN mp, OF this, of example_host empty_object]
  show "\<exists>s'. fetchWithPagination example_host empty_object (Some 100) ?n4
        = Some (Inl (Error ''Unexpected end of JSON input''), \<lparr> pending = [], sent = s' \<rparr>)"
    by simp
qed

text \<open>
  The claim as first stated fails: the initial request succeeds with status 200, the fetch
  of the second page is rejected (a transport failure), and the error propagates out of the
  loop, which catches nothing.
\<close>

theorem fetchWithPagination_errors_counterexample:
  "fetchWithPagination example_host empty_object (Some 100)
     (upstream [Response 200 ''OK'' (Json (page [vm_item ''A'' 1] (Some ''https://prices.azure.com/next''))),
                Rejected ''fetch failed''])
   = Some (Inl (Error ''fetch failed''),
           \<lparr> pending = [],
             sent = [Query [(''api-version'', API_VERSION)], Link ''https://prices.azure.com/next''] \<rparr>)
   \<and> ok 200"
proof -
  have sp: "searchParams example_host empty_object = [(''api-version'', API_VERSION)]"
    by (simp add: searchParams_def buildFilter_empty_object) (simp add: empty_object_def)
  have hl: "has_link (page [vm_item ''A'' 1] (Some ''https://prices.azure.com/next''))"
    by (simp add: has_link_def page_def)
  have lb: "length_below [vm_item ''A'' 1] (Some 100)"
    by (simp add: length_below_def)
  show ?thesis
    by (simp add: upstream_def fetchWithPagination_Cons Let_def ok_def sp paginate_Cons [OF hl lb])
       (simp add: page_def)
qed

subsection \<open>Grouping and the comparison report\<close>

lemma foldl_append_blocks:
  "(\<And>r e. step r e = r @ blk e) \<Longrightarrow> foldl step r es = r @ concat (map blk es)"
  by (induction es arbitrary: r) simp_all

lemma first_seen_filter: "first_seen (filter P xs) = filter P (first_seen xs)"
proof (induction xs)
  case Nil
  show ?case by simp
next
  case (Cons x xs)
  show ?case
  proof (cases "P x")
    case True
    then show ?thesis using Cons by (simp add: conj_commute)
  next
    case False
    have "filter P (filter (\<lambda>y. y \<noteq> x) (first_seen xs)) = filter P (first_seen xs)"
      unfolding filter_filter by (rule filter_cong) (use False in auto)
    with False Cons show ?thesis by simp
  qed
qed

lemma set_first_seen [simp]: "set (first_seen xs) = set xs"
  by (induction xs) auto

lemma distinct_first_seen [simp]: "distinct (first_seen xs)"
  by (induction xs) auto

lemma first_seen_distinct: "distinct xs \<Longrightarrow> first_seen xs = xs"
  by (induction xs) (auto simp: filter_id_conv)

lemma map_has_update:
  "map_has (map (\<lambda>(k, v). if k = k0 then (k, F v) else (k, v)) g) k = map_has g k"
proof -
  have "map fst (map (\<lambda>(k, v). if k = k0 then (k, F v) else (k, v)) g) = map fst g"
    by (induction g) (auto split: prod.splits)
  then show ?thesis by (simp only: map_has_def)
qed

lemma update_absent:
  "\<not> map_has g k0 \<Longrightarrow> map (\<lambda>(k, v). if k = k0 then (k, F v) else (k, v)) g = g"
  by (induction g) (auto simp: map_has_def)

lemma map_has_snoc: "map_has (g @ [(k0, v)]) k = (map_has g k \<or> k = k0)"
  by (auto simp: map_has_def)

lemma grouping_fold:
  assumes step: "\<And>g x. step g x =
      map (\<lambda>(k, v). if k = key x then (k, f v x) else (k, v))
          (if \<not> map_has g (key x) then g @ [(key x, e0)] else g)"
  shows "foldl step g items =
     map (\<lambda>(k, v). (k, foldl f v (filter (\<lambda>x. key x = k) items))) g
     @ map (\<lambda>k. (k, foldl f e0 (filter (\<lambda>x. key x = k) items)))
           (first_seen (filter (\<lambda>k. \<not> map_has g k) (map key items)))"
proof (induction items arbitrary: g)
  case Nil
  show ?case by (simp add: case_prod_unfold)
next
  case (Cons x xs)
  let ?k0 = "key x"
  let ?upd = "\<lambda>(k, v). if k = ?k0 then (k, f v x) else (k, v)"
  let ?A = "\<lambda>(k, v). (k, foldl f v (filter (\<lambda>x. key x = k) xs))"
  let ?B = "\<lambda>(k, v). (k, foldl f v (filter (\<lambda>y. key y = k) (x # xs)))"
  let ?C = "\<lambda>k. (k, foldl f e0 (filter (\<lambda>x. key x = k) xs))"
  let ?D = "\<lambda>k. (k, foldl f e0 (filter (\<lambda>y. key y = k) (x # xs)))"
  have AB: "map ?A (map ?upd g) = map ?B g" for g
    by (induction g) (auto split: prod.splits)
  show ?case
  proof (cases "map_has g ?k0")
    case True
    then have s: "step g x = map ?upd g" by (simp add: step)
    have keys: "(\<lambda>k. \<not> map_has (map ?upd g) k) = (\<lambda>k. \<not> map_has g k)"
      by (simp add: map_has_update)
    let ?ks = "first_seen (filter (\<lambda>k. \<not> map_has g k) (map key xs))"
    have CD: "map ?C ?ks = map ?D ?ks"
    proof (rule map_cong [OF refl])
      fix k assume "k \<in> set ?ks"
      then have "\<not> map_has g k" by simp
      with True have "k \<noteq> ?k0" by auto
      then show "?C k = ?D k" by auto
    qed
    have "foldl step g (x # xs) = foldl step (map ?upd g) xs" by (simp add: s)
    also have "\<dots> = map ?A (map ?upd g) @ map ?C ?ks"
      unfolding Cons.IH keys ..
    also have "\<dots> = map ?B g @ map ?D ?ks" by (simp only: AB CD)
    also have "?ks = first_seen (filter (\<lambda>k. \<not> map_has g k) (map key (x # xs)))"
      using True by simp
    finally show ?thesis .
  next
    case False
    then have "step g x = map ?upd (g @ [(?k0, e0)])" by (simp add: step)
    also have "\<dots> = map ?upd g @ [(?k0, f e0 x)]" by simp
    also have "map ?upd g = g" using False by (rule update_absent)
    finally have s: "step g x = g @ [(?k0, f e0 x)]" .
    let ?ks = "first_seen (filter (\<lambda>k. \<not> map_has (g @ [(?k0, f e0 x)]) k) (map key xs))"
    have ks: "?ks = filter (\<lambda>k. k \<noteq> ?k0) (first_seen (filter (\<lambda>k. \<not> map_has g k) (map key xs)))"
      by (simp add: map_has_snoc first_seen_filter [symmetric] conj_commute)
    have CD: "map ?C ?ks = map ?D ?ks"
    proof (rule map_cong [OF refl])
      fix k assume "k \<in> set ?ks"
      then have "k \<noteq> ?k0" unfolding ks by simp
      then show "?C k = ?D k" by auto
    qed
    have AB': "map ?A g = map ?B g"
    proof (rule map_cong [OF refl])
      fix e assume "e \<in> set g"
      then have "map_has g (fst e)" by (auto simp: map_has_def)
      with False have "fst e \<noteq> ?k0" by auto
      then show "?A e = ?B e" by (cases e) auto
    qed
    have "foldl step g (x # xs) = foldl step (g @ [(?k0, f e0 x)]) xs" by (simp add: s)
    also have "\<dots> = map ?A (g @ [(?k0, f e0 x)]) @ map ?C ?ks"
      unfolding Cons.IH ..
    also have "\<dots> = map ?B g @ (?D ?k0 # map ?D ?ks)"
      by (simp add: AB' CD)
    also have "?D ?k0 # map ?D ?ks
         = map ?D (first_seen (filter (\<lambda>k. \<not> map_has g k) (map key (x # xs))))"
      using False by (simp add: ks)
    finally show ?thesis .
  qed
qed

lemma foldl_snoc: "foldl (\<lambda>vs x. vs @ [x]) v xs = v @ xs"
  by (induction xs arbitrary: v) simp_all

lemma map_has_Nil [simp]: "\<not> map_has [] k"
  by (simp add: map_has_def)

lemma grouped_items:
  "foldl (group_step key) [] items =
     map (\<lambda>k. (k, filter (\<lambda>item. key item = k) items)) (first_seen (map key items))"
proof -
  have st: "group_step key g x =
      map (\<lambda>(k, v). if k = key x then (k, v @ [x]) else (k, v))
          (if \<not> map_has g (key x) then g @ [(key x, [])] else g)" for g x
    by (simp add: group_step_def Let_def)
  show ?thesis
    using grouping_fold [of "group_step key" key "\<lambda>vs x. vs @ [x]" "[]" "[]" items, OF st]
    by (simp add: foldl_snoc)
qed

lemma js_insort_price:
  "js_insort (\<lambda>a b. retailPrice a - retailPrice b) x ys = insort_key retailPrice x ys"
  by (induction ys) simp_all

lemma js_sort_price: "js_sort (\<lambda>a b. retailPrice a - retailPrice b) xs = sort_key retailPrice xs"
  by (induction xs) (simp_all add: js_sort_def js_insort_price sort_key_def)

lemma compare_group_block:
  "compare_group h result (sku, prices) =
     result @ ''### '' @ sku @ nl
       @ concat (map (compare_line h) (take 10 (sort_key retailPrice prices))) @ nl"
proof -
  have "foldl (\<lambda>result p. result @ compare_line h p) r ps = r @ concat (map (compare_line h) ps)" for r ps
    by (rule foldl_append_blocks) simp
  then show ?thesis by (simp add: compare_group_def Let_def js_sort_price)
qed

lemma compare_report_blocks:
  "compare_report h items =
     comparison_header
     @ concat (map (\<lambda>sku. ''### '' @ sku @ nl @ concat (map (compare_line h) (listed sku items)) @ nl)
                   (first_seen (map armSkuName items)))"
proof -
  let ?blk = "\<lambda>e. ''### '' @ fst e @ nl
      @ concat (map (compare_line h) (take 10 (sort_key retailPrice (snd e)))) @ nl"
  have "foldl (compare_group h) r es = r @ concat (map ?blk es)" for r es
  proof (rule foldl_append_blocks)
    show "compare_group h r e = r @ ?blk e" for r e
      by (cases e) (simp add: compare_group_block)
  qed
  then show ?thesis
    by (simp add: compare_report_def Let_def grouped_items comparison_header_def listed_def
        o_def nl_def)
qed

lemma first_seen_snoc:
  "first_seen (xs @ [x]) = first_seen xs @ (if x \<in> set xs then [] else [x])"
  by (induction xs) auto

lemma listed_sorted: "sorted (map retailPrice (listed sku items))"
  unfolding listed_def take_map [symmetric] by (rule sorted_wrt_take) (rule sorted_sort_key)

lemma listed_cheapest:
  assumes "p \<in> set (listed sku items)"
    "q \<in> set (drop 10 (sort_key retailPrice (filter (\<lambda>item. armSkuName item = sku) items)))"
  shows "retailPrice p \<le> retailPrice q"
proof -
  let ?ys = "sort_key retailPrice (filter (\<lambda>item. armSkuName item = sku) items)"
  have "sorted (map retailPrice (take 10 ?ys @ drop 10 ?ys))"
    by (simp only: append_take_drop_id) (rule sorted_sort_key)
  then have "\<forall>a \<in> set (map retailPrice (take 10 ?ys)). \<forall>b \<in> set (map retailPrice (drop 10 ?ys)). a \<le> b"
    by (simp only: map_append sorted_append) blast
  moreover have "retailPrice p \<in> set (map retailPrice (take 10 ?ys))"
    using assms(1) by (simp add: listed_def)
  moreover have "retailPrice q \<in> set (map retailPrice (drop 10 ?ys))"
    using assms(2) by simp
  ultimately show ?thesis by blast
qed

lemma listed_subset: "set (listed sku items) \<subseteq> {item \<in> set items. armSkuName item = sku}"
proof -
  have "set (listed sku items) \<subseteq> set (sort_key retailPrice (filter (\<lambda>item. armSkuName item = sku) items))"
    unfolding listed_def by (rule set_take_subset)
  then show ?thesis by auto
qed

text \<open>
  C7. The \<^verbatim>\<open>compare_vm_prices\<close> report is the header followed by one block for each ARM
  SKU name, the names in the order in which each is first seen among the (region-filtered)
  items. A block is the heading \<open>### sku\<close>, then one line
  \<open>- region: price currency/unit (product)\<close> for each listed item, then an empty line; the
  listed items are the first ten of the SKU's items sorted by ascending retail price
  (stably), so they are in ascending price order, at most ten, and no item of the SKU left
  out is cheaper than a listed one.
\<close>

theorem compare_report_groups:
  "compare_report h items =
     ''## VM Price Comparison\<newline>\<newline>''
     @ concat (map (\<lambda>sku. ''### '' @ sku @ ''\<newline>''
                      @ concat (map (\<lambda>p. ''- '' @ armRegionName p @ '': ''
                                        @ numberToString h (retailPrice p) @ '' '' @ currencyCode p
                                        @ ''/'' @ unitOfMeasure p @ '' ('' @ productName p
                                        @ '')\<newline>'')
                                    (listed sku items))
                      @ ''\<newline>'')
                   (first_seen (map armSkuName items)))
   \<and> handleToolCall h ''compare_vm_prices'' (Some args) n =
       then_report (fetchWithPagination h (compare_params args) (Some 500) n)
         (\<lambda>fetched. compare_report h (filter_regions args fetched))
   \<and> distinct (first_seen (map armSkuName items))
   \<and> set (first_seen (map armSkuName items)) = armSkuName ` set items
   \<and> first_seen (map armSkuName (items @ [item])) =
       first_seen (map armSkuName items)
       @ (if armSkuName item \<in> armSkuName ` set items then [] else [armSkuName item])
   \<and> listed sku items = take 10 (sort_key retailPrice (filter (\<lambda>item. armSkuName item = sku) items))
   \<and> sorted (map retailPrice (listed sku items))
   \<and> length (listed sku items) \<le> 10
   \<and> set (listed sku items) \<subseteq> {item \<in> set items. armSkuName item = sku}
   \<and> (\<forall>p \<in> set (listed sku items).
        \<forall>q \<in> set (drop 10 (sort_key retailPrice (filter (\<lambda>item. armSkuName item = sku) items))).
          retailPrice p \<le> retailPrice q)"
proof (intro conjI ballI)
  have line: "compare_line h = (\<lambda>p. ''- '' @ armRegionName p @ '': ''
                                        @ numberToString h (retailPrice p) @ '' '' @ currencyCode p
                                        @ ''/'' @ unitOfMeasure p @ '' ('' @ productName p
                                        @ '')\<newline>'')"
    by (rule ext) (simp add: compare_line_def nl_def)
  show "compare_report h items =
     ''## VM Price Comparison\<newline>\<newline>''
     @ concat (map (\<lambda>sku. ''### '' @ sku @ ''\<newline>''
                      @ concat (map (\<lambda>p. ''- '' @ armRegionName p @ '': ''
                                        @ numberToString h (retailPrice p) @ '' '' @ currencyCode p
                                        @ ''/'' @ unitOfMeasure p @ '' ('' @ productName p
                                        @ '')\<newline>'')
                                    (listed sku items))
                      @ ''\<newline>'')
                   (first_seen (map armSkuName items)))"
    unfolding compare_report_blocks line by (simp add: comparison_header_def nl_def)
  show "handleToolCall h ''compare_vm_prices'' (Some args) n =
       then_report (fetchWithPagination h (compare_params args) (Some 500) n)
         (\<lambda>fetched. compare_report h (filter_regions args fetched))"
    by (simp add: handleToolCall_def)
  show "distinct (first_seen (map armSkuName items))" by simp
  show "set (first_seen (map armSkuName items)) = armSkuName ` set items" by simp
  show "first_seen (map armSkuName (items @ [item])) =
       first_seen (map armSkuName items)
       @ (if armSkuName item \<in> armSkuName ` set items then [] else [armSkuName item])"
    using first_seen_snoc [of "map armSkuName items" "armSkuName item"] by simp
  show "listed sku items = take 10 (sort_key retailPrice (filter (\<lambda>item. armSkuName item = sku) items))"
    by (simp add: listed_def)
  show "sorted (map retailPrice (listed sku items))" by (rule listed_sorted)
  show "length (listed sku items) \<le> 10" by (simp add: listed_def)
  show "set (listed sku items) \<subseteq> {item \<in> set items. armSkuName item = sku}"
    by (rule listed_subset)
  show "retailPrice p \<le> retailPrice q"
    if "p \<in> set (listed sku items)"
      "q \<in> set (drop 10 (sort_key retailPrice (filter (\<lambda>item. armSkuName item = sku) items)))"
    for p q
    using that by (rule listed_cheapest)
qed

lemma vm_item_sel [simp]:
  "armSkuName (vm_item sku price) = sku" "retailPrice (vm_item sku price) = price"
  "armRegionName (vm_item sku price) = ''eastus''" "currencyCode (vm_item sku price) = ''USD''"
  "unitOfMeasure (vm_item sku price) = ''1 Hour''"
  "productName (vm_item sku price) = ''Virtual Machines''"
  by (simp_all add: vm_item_def blank_item_def)

lemma example_host_numbers:
  "numberToString example_host 1 = ''1''" "numberToString example_host 2 = ''2''"
  "numberToString example_host 3 = ''3''" "numberToString example_host 5 = ''5''"
  by (simp_all add: example_host_def show_nat.simps digit_def)

theorem compare_report_groups_witness:
  "compare_report example_host [vm_item ''A'' 3, vm_item ''A'' 1, vm_item ''B'' 5, vm_item ''A'' 2] =
     ''## VM Price Comparison\<newline>\<newline>### A\<newline>- eastus: 1 USD/1 Hour (Virtual Machines)\<newline>- eastus: 2 USD/1 Hour (Virtual Machines)\<newline>- eastus: 3 USD/1 Hour (Virtual Machines)\<newline>\<newline>### B\<newline>- eastus: 5 USD/1 Hour (Virtual Machines)\<newline>\<newline>''
   \<and> map retailPrice (listed ''A'' [vm_item ''A'' 3, vm_item ''A'' 1, vm_item ''B'' 5, vm_item ''A'' 2])
       = [1, 2, 3]
   \<and> length (listed ''A''
       [vm_item ''A'' 20, vm_item ''A'' 19, vm_item ''A'' 18, vm_item ''A'' 17, vm_item ''A'' 16,
        vm_item ''A'' 15, vm_item ''A'' 14, vm_item ''A'' 13, vm_item ''A'' 12, vm_item ''A'' 11,
        vm_item ''A'' 10, vm_item ''A'' 9]) = 10
   \<and> retailPrice (vm_item ''A'' 9) \<le> retailPrice (vm_item ''A'' 19)"
proof -
  let ?items = "[vm_item ''A'' 3, vm_item ''A'' 1, vm_item ''B'' 5, vm_item ''A'' 2]"
  let ?many = "[vm_item ''A'' 20, vm_item ''A'' 19, vm_item ''A'' 18, vm_item ''A'' 17, vm_item ''A'' 16,
        vm_item ''A'' 15, vm_item ''A'' 14, vm_item ''A'' 13, vm_item ''A'' 12, vm_item ''A'' 11,
        vm_item ''A'' 10, vm_item ''A'' 9]"
  have fs: "first_seen (map armSkuName ?items) = [''A'', ''B'']" by simp
  have la: "listed ''A'' ?items = [vm_item ''A'' 1, vm_item ''A'' 2, vm_item ''A'' 3]"
    by (simp add: listed_def)
  have lb: "listed ''B'' ?items = [vm_item ''B'' 5]"
    by (simp add: listed_def)
  let ?sorted = "[vm_item ''A'' 9, vm_item ''A'' 10, vm_item ''A'' 11, vm_item ''A'' 12, vm_item ''A'' 13,
         vm_item ''A'' 14, vm_item ''A'' 15, vm_item ''A'' 16, vm_item ''A'' 17, vm_item ''A'' 18,
         vm_item ''A'' 19, vm_item ''A'' 20]"
  have flt: "filter (\<lambda>item. armSkuName item = ''A'') ?many = ?many" by simp
  have srt: "sort_key retailPrice ?many = ?sorted" by simp
  have lm: "listed ''A'' ?many = take 10 ?sorted"
    unfolding listed_def flt srt ..
  from compare_report_groups [of example_host ?items empty_object "upstream []" blank_item "''A''"]
  have "compare_report example_host ?items =
     ''## VM Price Comparison\<newline>\<newline>''
     @ concat (map (\<lambda>sku. ''### '' @ sku @ ''\<newline>''
                      @ concat (map (\<lambda>p. ''- '' @ armRegionName p @ '': ''
                                        @ numberToString example_host (retailPrice p) @ '' ''
                                        @ currencyCode p
                                        @ ''/'' @ unitOfMeasure p @ '' ('' @ productName p
                                        @ '')\<newline>'')
                                    (listed sku ?items))
                      @ ''\<newline>'')
                   (first_seen (map armSkuName ?items)))"
    by (rule conjunct1)
  then have 1: "compare_report example_host ?items =
     ''## VM Price Comparison\<newline>\<newline>### A\<newline>- eastus: 1 USD/1 Hour (Virtual Machines)\<newline>- eastus: 2 USD/1 Hour (Virtual Machines)\<newline>- eastus: 3 USD/1 Hour (Virtual Machines)\<newline>\<newline>### B\<newline>- eastus: 5 USD/1 Hour (Virtual Machines)\<newline>\<newline>''"
    unfolding fs by (simp add: la lb example_host_numbers)
  have 2: "map retailPrice (listed ''A'' ?items) = [1, 2, 3]" by (simp add: la)
  have 3: "length (listed ''A'' ?many) = 10" unfolding lm by simp
  have "vm_item ''A'' 9 \<in> set (listed ''A'' ?many)"
    unfolding lm by simp
  moreover have "vm_item ''A'' 19 \<in> set (drop 10 (sort_key retailPrice (filter (\<lambda>item. armSkuName item = ''A'') ?many)))"
    by (simp add: srt)
  moreover from compare_report_groups [of example_host ?many empty_object "upstream []" blank_item "''A''"]
  have "\<forall>p \<in> set (listed ''A'' ?many).
        \<forall>q \<in> set (drop 10 (sort_key retailPrice (filter (\<lambda>item. armSkuName item = ''A'') ?many))).
          retailPrice p \<le> retailPrice q"
    by blast
  ultimately have 4: "retailPrice (vm_item ''A'' 9) \<le> retailPrice (vm_item ''A'' 19)" by blast
  from 1 2 3 4 show ?thesis by blast
qed

subsection \<open>The discovery report\<close>

lemma foldl_set_add:
  "foldl (\<lambda>s x. set_add s (g x)) acc xs = acc @ first_seen (filter (\<lambda>p. p \<notin> set acc) (map g xs))"
proof (induction xs arbitrary: acc)
  case Nil
  show ?case by simp
next
  case (Cons x xs)
  have step: "foldl (\<lambda>s x. set_add s (g x)) acc (x # xs)
              = foldl (\<lambda>s x. set_add s (g x)) (set_add acc (g x)) xs"
    by simp
  show ?case
  proof (cases "g x \<in> set acc")
    case True
    then have "set_add acc (g x) = acc" by (simp add: set_add_def)
    with True show ?thesis unfolding step by (simp add: Cons.IH)
  next
    case False
    then have a: "set_add acc (g x) = acc @ [g x]" by (simp add: set_add_def)
    have sw: "filter (\<lambda>p. p \<noteq> g x \<and> p \<notin> set acc) ys = filter (\<lambda>p. p \<notin> set acc \<and> p \<noteq> g x) ys" for ys
      by (rule filter_cong) auto
    have "filter (\<lambda>y. y \<noteq> g x) (first_seen (filter (\<lambda>p. p \<notin> set acc) (map g xs)))
          = first_seen (filter (\<lambda>p. p \<notin> set acc \<and> p \<noteq> g x) (map g xs))"
      by (simp add: first_seen_filter [symmetric] sw)
    with False show ?thesis unfolding step a by (simp add: Cons.IH sw)
  qed
qed

lemma services_grouped:
  "foldl service_step [] items =
     map (\<lambda>s. (s, first_seen (map productName (filter (\<lambda>item. serviceName item = s) items))))
         (first_seen (map serviceName items))"
proof -
  have st: "service_step g x =
      map (\<lambda>(k, v). if k = serviceName x then (k, set_add v (productName x)) else (k, v))
          (if \<not> map_has g (serviceName x) then g @ [(serviceName x, [])] else g)" for g x
    by (simp add: service_step_def Let_def)
  show ?thesis
    using grouping_fold [of service_step serviceName "\<lambda>s x. set_add s (productName x)" "[]" "[]" items, OF st]
    by (simp add: foldl_set_add)
qed

lemma js_insort_entries:
  "js_insort (\<lambda>a b. cmp (fst a) (fst b)) (k, F k) (map (\<lambda>s. (s, F s)) ks)
   = map (\<lambda>s. (s, F s)) (js_insort cmp k ks)"
  by (induction ks) simp_all

lemma js_sort_entries:
  "js_sort (\<lambda>a b. cmp (fst a) (fst b)) (map (\<lambda>s. (s, F s)) ks) = map (\<lambda>s. (s, F s)) (js_sort cmp ks)"
  by (induction ks) (simp_all add: js_sort_def js_insort_entries)

lemma set_js_insort: "set (js_insort cmp x ys) = insert x (set ys)"
  by (induction ys) auto

lemma set_js_sort [simp]: "set (js_sort cmp xs) = set xs"
  by (induction xs) (simp_all add: js_sort_def set_js_insort)

lemma length_js_insort: "length (js_insort cmp x ys) = Suc (length ys)"
  by (induction ys) auto

lemma length_js_sort [simp]: "length (js_sort cmp xs) = length xs"
  by (induction xs) (simp_all add: js_sort_def length_js_insort)

lemma distinct_js_insort: "distinct (js_insort cmp x ys) = (x \<notin> set ys \<and> distinct ys)"
  by (induction ys) (auto simp: set_js_insort)

lemma distinct_js_sort [simp]: "distinct (js_sort cmp xs) = distinct xs"
  by (induction xs) (simp_all add: js_sort_def distinct_js_insort set_js_sort [unfolded js_sort_def])

lemma sorted_js_insort:
  assumes "consistent cmp" "sorted_wrt (\<lambda>a b. cmp a b \<le> 0) ys"
  shows "sorted_wrt (\<lambda>a b. cmp a b \<le> 0) (js_insort cmp x ys)"
  using assms(2)
proof (induction ys)
  case Nil
  show ?case by simp
next
  case (Cons y ys)
  from assms(1) have total: "cmp a b \<le> 0 \<or> cmp b a \<le> 0" for a b
    unfolding consistent_def by blast
  from assms(1) have trans: "cmp a b \<le> 0 \<Longrightarrow> cmp b c \<le> 0 \<Longrightarrow> cmp a c \<le> 0" for a b c
    unfolding consistent_def by blast
  show ?case
  proof (cases "cmp x y \<le> 0")
    case True
    with Cons.prems trans show ?thesis by auto
  next
    case False
    with total have "cmp y x \<le> 0" by blast
    with False Cons show ?thesis by (auto simp: set_js_insort)
  qed
qed

lemma sorted_js_sort:
  "consistent cmp \<Longrightarrow> sorted_wrt (\<lambda>a b. cmp a b \<le> 0) (js_sort cmp xs)"
  by (induction xs) (simp_all add: js_sort_def sorted_js_insort)

lemma sort_first_seen: "sort (first_seen xs) = sort (remdups xs)"
  by (rule sorted_distinct_set_unique) simp_all

lemma length_first_seen: "length (first_seen xs) = card (set xs)"
  using distinct_card [of "first_seen xs"] by simp

lemma product_lines_take:
  "foldl (\<lambda>result product. result @ ''- '' @ product @ nl) r ps
   = r @ concat (map (\<lambda>product. ''- '' @ product @ nl) ps)"
  by (rule foldl_append_blocks) simp

lemma service_section_block:
  "service_section result (name, products) = result @ service_block name (sort products)"
  unfolding service_section_def Let_def prod.case product_lines_take
  by (simp add: service_block_def product_lines_def nl_def)

lemma services_report_blocks:
  "services_report h family items =
     ''## Services in '' @ [CHR 0x22] @ family @ [CHR 0x22] @ '' Family'' @ ''\<newline>\<newline>''
     @ summary_line (card (serviceName ` set items)) (length items)
     @ concat (map (\<lambda>service. service_block service (products_of service items))
                   (service_names h items))"
proof -
  let ?F = "\<lambda>s. first_seen (map productName (filter (\<lambda>item. serviceName item = s) items))"
  let ?ks = "first_seen (map serviceName items)"
  have fold: "foldl service_section r es = r @ concat (map (\<lambda>e. service_block (fst e) (sort (snd e))) es)"
    for r es
  proof (rule foldl_append_blocks)
    show "service_section r e = r @ service_block (fst e) (sort (snd e))" for r e
      by (cases e) (simp add: service_section_block)
  qed
  have len: "length (foldl service_step [] items) = card (serviceName ` set items)"
    using length_first_seen [of "map serviceName items"] by (simp add: services_grouped)
  have srt: "js_sort (\<lambda>a b. localeCompare h (fst a) (fst b)) (foldl service_step [] items)
        = map (\<lambda>s. (s, ?F s)) (service_names h items)"
    unfolding services_grouped service_names_def by (rule js_sort_entries)
  have prod: "sort (?F s) = products_of s items" for s
    unfolding products_of_def by (rule sort_first_seen)
  show ?thesis
    unfolding services_report_def Let_def fold len srt
    by (simp add: summary_line_def o_def prod nl_def dquoted_def)
qed

lemma products_of_props:
  "sorted (products_of service items)" "distinct (products_of service items)"
  "set (products_of service items) = productName ` {item \<in> set items. serviceName item = service}"
  by (auto simp: products_of_def)

lemma service_names_props:
  "set (service_names h items) = serviceName ` set items" "distinct (service_names h items)"
  by (simp_all add: service_names_def)

lemma service_names_sorted:
  "consistent (localeCompare h) \<Longrightarrow>
   sorted_wrt (\<lambda>a b. localeCompare h a b \<le> 0) (service_names h items)"
  unfolding service_names_def by (rule sorted_js_sort)

lemma valid_family_handler:
  assumes "args ''serviceFamily'' = JStr family" "family \<in> set SERVICE_FAMILIES"
  shows "handleToolCall h ''get_services_by_family'' (Some args) n =
         then_report
           (fetchWithPagination h (empty_object(''serviceFamily'' := JStr family))
              (capped h (args ''maxResults'') 500 2000) n)
           (\<lambda>items. if length items = 0 then ''No services found for service family: '' @ family
                     else services_report h family items)"
  using assms by (simp add: handleToolCall_def Let_def cong: if_cong)

text \<open>
  C8, amended. The \<^verbatim>\<open>get_services_by_family\<close> report is the title, the summary line with
  the number of distinct services and the number of scanned records, and one section for
  each distinct service name. The sections are in the order of the locale's collation
  (\<^verbatim>\<open>localeCompare\<close>), not of the code units; the product names of a service are its
  distinct product names in lexicographic (code unit) order, the first 20 of them listed,
  followed by \<open>- ... and N more\<close> exactly when there are more than 20, with \<open>N\<close> the count
  minus 20.
\<close>

theorem services_report_sections:
  "services_report h family items =
     ''## Services in '' @ [CHR 0x22] @ family @ [CHR 0x22] @ '' Family'' @ ''\<newline>\<newline>''
     @ summary_line (card (serviceName ` set items)) (length items)
     @ concat (map (\<lambda>service. service_block service (products_of service items))
                   (service_names h items))
   \<and> set (service_names h items) = serviceName ` set items
   \<and> distinct (service_names h items)
   \<and> (consistent (localeCompare h) \<longrightarrow>
        sorted_wrt (\<lambda>a b. localeCompare h a b \<le> 0) (service_names h items))
   \<and> sorted (products_of service items)
   \<and> distinct (products_of service items)
   \<and> set (products_of service items) = productName ` {item \<in> set items. serviceName item = service}
   \<and> service_block name products =
       ''### '' @ name @ ''\<newline>'' @ ''Products ('' @ show_nat (length products) @ ''):'' @ ''\<newline>''
       @ concat (map (\<lambda>product. ''- '' @ product @ ''\<newline>'') (take 20 products))
       @ (if length products > 20
          then ''- ... and '' @ show_nat (length products - 20) @ '' more'' @ ''\<newline>'' else [])
       @ ''\<newline>''
   \<and> summary_line k r =
       ''Found '' @ show_nat k @ '' service(s) from '' @ show_nat r @ '' price records:'' @ ''\<newline>\<newline>''
   \<and> (args ''serviceFamily'' = JStr family \<and> family \<in> set SERVICE_FAMILIES \<longrightarrow>
        handleToolCall h ''get_services_by_family'' (Some args) n =
          then_report
            (fetchWithPagination h (empty_object(''serviceFamily'' := JStr family))
               (capped h (args ''maxResults'') 500 2000) n)
            (\<lambda>items. if length items = 0 then ''No services found for service family: '' @ family
                      else services_report h family items))"
proof (intro conjI impI)
  show "services_report h family items =
     ''## Services in '' @ [CHR 0x22] @ family @ [CHR 0x22] @ '' Family'' @ ''\<newline>\<newline>''
     @ summary_line (card (serviceName ` set items)) (length items)
     @ concat (map (\<lambda>service. service_block service (products_of service items))
                   (service_names h items))"
    by (rule services_report_blocks)
  show "set (service_names h items) = serviceName ` set items" by (rule service_names_props)
  show "distinct (service_names h items)" by (rule service_names_props)
  show "sorted_wrt (\<lambda>a b. localeCompare h a b \<le> 0) (service_names h items)"
    if "consistent (localeCompare h)" using that by (rule service_names_sorted)
  show "sorted (products_of service items)" by (rule products_of_props)
  show "distinct (products_of service items)" by (rule products_of_props)
  show "set (products_of service items) = productName ` {item \<in> set items. serviceName item = service}"
    by (rule products_of_props)
  show "service_block name products =
       ''### '' @ name @ ''\<newline>'' @ ''Products ('' @ show_nat (length products) @ ''):'' @ ''\<newline>''
       @ concat (map (\<lambda>product. ''- '' @ product @ ''\<newline>'') (take 20 products))
       @ (if length products > 20
          then ''- ... and '' @ show_nat (length products - 20) @ '' more'' @ ''\<newline>'' else [])
       @ ''\<newline>''"
    by (simp add: service_block_def product_lines_def)
  show "summary_line k r =
       ''Found '' @ show_nat k @ '' service(s) from '' @ show_nat r @ '' price records:'' @ ''\<newline>\<newline>''"
    by (simp add: summary_line_def)
  show "handleToolCall h ''get_services_by_family'' (Some args) n =
          then_report
            (fetchWithPagination h (empty_object(''serviceFamily'' := JStr family))
               (capped h (args ''maxResults'') 500 2000) n)
            (\<lambda>items. if length items = 0 then ''No services found for service family: '' @ family
                      else services_report h family items)"
    if "args ''serviceFamily'' = JStr family \<and> family \<in> set SERVICE_FAMILIES"
    using that valid_family_handler [of args family h n] by blast
qed

lemma product_item_sel [simp]:
  "productName (product_item service product) = product"
  "serviceName (product_item service product) = service"
  by (simp_all add: product_item_def)

lemma consistent_example_host: "consistent (localeCompare example_host)"
  by (auto simp: consistent_def example_host_def)

theorem services_report_sections_witness:
  "services_report example_host ''Compute''
       [product_item ''Virtual Machines'' ''D25'', product_item ''Virtual Machines'' ''D24'', product_item ''Virtual Machines'' ''D23'',
        product_item ''Virtual Machines'' ''D22'', product_item ''Virtual Machines'' ''D21'', product_item ''Virtual Machines'' ''D20'',
        product_item ''Virtual Machines'' ''D19'', product_item ''Virtual Machines'' ''D18'', product_item ''Virtual Machines'' ''D17'',
        product_item ''Virtual Machines'' ''D16'', product_item ''Virtual Machines'' ''D15'', product_item ''Virtual Machines'' ''D14'',
        product_item ''Virtual Machines'' ''D13'', product_item ''Virtual Machines'' ''D12'', product_item ''Virtual Machines'' ''D11'',
        product_item ''Virtual Machines'' ''D10'', product_item ''Virtual Machines'' ''D09'', product_item ''Virtual Machines'' ''D08'',
        product_item ''Virtual Machines'' ''D07'', product_item ''Virtual Machines'' ''D06'', product_item ''Virtual Machines'' ''D05'',
        product_item ''Virtual Machines'' ''D04'', product_item ''Virtual Machines'' ''D03'', product_item ''Virtual Machines'' ''D02'',
        product_item ''Virtual Machines'' ''D01'']
   = ''## Services in '' @ [CHR 0x22] @ ''Compute'' @ [CHR 0x22] @ '' Family'' @ ''\<newline>\<newline>''
     @ ''Found 1 service(s) from 25 price records:'' @ ''\<newline>\<newline>''
     @ ''### Virtual Machines'' @ ''\<newline>'' @ ''Products (25):'' @ ''\<newline>''
     @ concat (map (\<lambda>product. ''- '' @ product @ ''\<newline>'')
       [''D01'', ''D02'', ''D03'', ''D04'', ''D05'', ''D06'', ''D07'', ''D08'', ''D09'', ''D10'',
        ''D11'', ''D12'', ''D13'', ''D14'', ''D15'', ''D16'', ''D17'', ''D18'', ''D19'', ''D20''])
     @ ''- ... and 5 more'' @ ''\<newline>\<newline>''
   \<and> sorted_wrt (\<lambda>a b. localeCompare example_host a b \<le> 0)
       (service_names example_host [product_item ''Storage'' ''Files'', product_item ''Backup'' ''Vault''])
   \<and> service_names example_host [product_item ''Storage'' ''Files'', product_item ''Backup'' ''Vault'']
       = [''Backup'', ''Storage'']
   \<and> handleToolCall example_host ''get_services_by_family''
        (Some (empty_object(''serviceFamily'' := JStr ''Compute''))) (upstream []) = None"
proof (intro conjI)
  let ?items = "[product_item ''Virtual Machines'' ''D25'', product_item ''Virtual Machines'' ''D24'', product_item ''Virtual Machines'' ''D23'',
        product_item ''Virtual Machines'' ''D22'', product_item ''Virtual Machines'' ''D21'', product_item ''Virtual Machines'' ''D20'',
        product_item ''Virtual Machines'' ''D19'', product_item ''Virtual Machines'' ''D18'', product_item ''Virtual Machines'' ''D17'',
        product_item ''Virtual Machines'' ''D16'', product_item ''Virtual Machines'' ''D15'', product_item ''Virtual Machines'' ''D14'',
        product_item ''Virtual Machines'' ''D13'', product_item ''Virtual Machines'' ''D12'', product_item ''Virtual Machines'' ''D11'',
        product_item ''Virtual Machines'' ''D10'', product_item ''Virtual Machines'' ''D09'', product_item ''Virtual Machines'' ''D08'',
        product_item ''Virtual Machines'' ''D07'', product_item ''Virtual Machines'' ''D06'', product_item ''Virtual Machines'' ''D05'',
        product_item ''Virtual Machines'' ''D04'', product_item ''Virtual Machines'' ''D03'', product_item ''Virtual Machines'' ''D02'',
        product_item ''Virtual Machines'' ''D01'']"
  let ?two = "[product_item ''Storage'' ''Files'', product_item ''Backup'' ''Vault'']"
  let ?args = "empty_object(''serviceFamily'' := JStr ''Compute'')"
  note inst = services_report_sections [of example_host "''Compute''" ?items "''Virtual Machines''"
      "''Virtual Machines''" "products_of ''Virtual Machines'' ?items" 1 25 ?args "upstream []"]
  have names: "service_names example_host ?items = [''Virtual Machines'']"
    by (simp add: service_names_def js_sort_def)
  have prods: "products_of ''Virtual Machines'' ?items =
       [''D01'', ''D02'', ''D03'', ''D04'', ''D05'', ''D06'', ''D07'', ''D08'', ''D09'', ''D10'',
        ''D11'', ''D12'', ''D13'', ''D14'', ''D15'', ''D16'', ''D17'', ''D18'', ''D19'', ''D20'',
        ''D21'', ''D22'', ''D23'', ''D24'', ''D25'']"
    by (simp add: products_of_def)
  have card: "card (serviceName ` set ?items) = 1"
    using length_first_seen [of "map serviceName ?items"] by simp
  have len: "length ?items = 25" by simp
  have nums: "show_nat 1 = ''1''" "show_nat 25 = ''25''" "show_nat 5 = ''5''"
    by code_simp+
  have l25: "length
       [''D01'', ''D02'', ''D03'', ''D04'', ''D05'', ''D06'', ''D07'', ''D08'', ''D09'', ''D10'',
        ''D11'', ''D12'', ''D13'', ''D14'', ''D15'', ''D16'', ''D17'', ''D18'', ''D19'', ''D20'',
        ''D21'', ''D22'', ''D23'', ''D24'', ''D25''] = 25"
    by simp
  have t20: "take 20
       [''D01'', ''D02'', ''D03'', ''D04'', ''D05'', ''D06'', ''D07'', ''D08'', ''D09'', ''D10'',
        ''D11'', ''D12'', ''D13'', ''D14'', ''D15'', ''D16'', ''D17'', ''D18'', ''D19'', ''D20'',
        ''D21'', ''D22'', ''D23'', ''D24'', ''D25''] =
       [''D01'', ''D02'', ''D03'', ''D04'', ''D05'', ''D06'', ''D07'', ''D08'', ''D09'', ''D10'',
        ''D11'', ''D12'', ''D13'', ''D14'', ''D15'', ''D16'', ''D17'', ''D18'', ''D19'', ''D20'']"
    by simp
  have d: "(25::nat) - 20 = 5" "(20::nat) < 25" by simp_all
  have blk: "service_block ''Virtual Machines''
       [''D01'', ''D02'', ''D03'', ''D04'', ''D05'', ''D06'', ''D07'', ''D08'', ''D09'', ''D10'',
        ''D11'', ''D12'', ''D13'', ''D14'', ''D15'', ''D16'', ''D17'', ''D18'', ''D19'', ''D20'',
        ''D21'', ''D22'', ''D23'', ''D24'', ''D25'']
     = ''### Virtual Machines'' @ ''\<newline>'' @ ''Products (25):'' @ ''\<newline>''
       @ concat (map (\<lambda>product. ''- '' @ product @ ''\<newline>'')
       [''D01'', ''D02'', ''D03'', ''D04'', ''D05'', ''D06'', ''D07'', ''D08'', ''D09'', ''D10'',
        ''D11'', ''D12'', ''D13'', ''D14'', ''D15'', ''D16'', ''D17'', ''D18'', ''D19'', ''D20''])
       @ ''- ... and 5 more'' @ ''\<newline>\<newline>''"
    unfolding service_block_def product_lines_def l25 t20 d nums by simp
  have sm: "summary_line 1 25 = ''Found 1 service(s) from 25 price records:'' @ ''\<newline>\<newline>''"
    unfolding summary_line_def nums by simp
  from inst have "services_report example_host ''Compute'' ?items =
     ''## Services in '' @ [CHR 0x22] @ ''Compute'' @ [CHR 0x22] @ '' Family'' @ ''\<newline>\<newline>''
     @ summary_line (card (serviceName ` set ?items)) (length ?items)
     @ concat (map (\<lambda>service. service_block service (products_of service ?items))
                   (service_names example_host ?items))"
    by (rule conjunct1)
  then show "services_report example_host ''Compute'' ?items
   = ''## Services in '' @ [CHR 0x22] @ ''Compute'' @ [CHR 0x22] @ '' Family'' @ ''\<newline>\<newline>''
     @ ''Found 1 service(s) from 25 price records:'' @ ''\<newline>\<newline>''
     @ ''### Virtual Machines'' @ ''\<newline>'' @ ''Products (25):'' @ ''\<newline>''
     @ concat (map (\<lambda>product. ''- '' @ product @ ''\<newline>'')
       [''D01'', ''D02'', ''D03'', ''D04'', ''D05'', ''D06'', ''D07'', ''D08'', ''D09'', ''D10'',
        ''D11'', ''D12'', ''D13'', ''D14'', ''D15'', ''D16'', ''D17'', ''D18'', ''D19'', ''D20''])
     @ ''- ... and 5 more'' @ ''\<newline>\<newline>''"
    unfolding names card len sm list.map concat.simps prods blk by simp
  have two: "service_names example_host ?two = [''Backup'', ''Storage'']"
    by (simp add: service_names_def js_sort_def example_host_def)
  from services_report_sections [of example_host "''Compute''" ?two] consistent_example_host
  show "sorted_wrt (\<lambda>a b. localeCompare example_host a b \<le> 0) (service_names example_host ?two)"
    by blast
  show "service_names example_host ?two = [''Backup'', ''Storage'']" by (rule two)
  have "?args ''serviceFamily'' = JStr ''Compute'' \<and> ''Compute'' \<in> set SERVICE_FAMILIES"
    by (simp add: SERVICE_FAMILIES_def)
  with inst have "handleToolCall example_host ''get_services_by_family'' (Some ?args) (upstream []) =
          then_report
            (fetchWithPagination example_host (empty_object(''serviceFamily'' := JStr ''Compute''))
               (capped example_host (?args ''maxResults'') 500 2000) (upstream []))
            (\<lambda>items. if length items = 0 then ''No services found for service family: '' @ ''Compute''
                      else services_report example_host ''Compute'' items)"
    by blast
  then show "handleToolCall example_host ''get_services_by_family'' (Some ?args) (upstream []) = None"
    by (simp add: upstream_def fetchWithPagination_Nil then_report_def)
qed

text \<open>
  The claim as first stated fails for the service names: with a collation that ignores
  case, as that of \<^verbatim>\<open>localeCompare\<close> does, \<open>apps\<close> is listed before \<open>Backup\<close>, while
  \<open>Backup\<close> comes first in lexicographic (code unit) order.
\<close>

theorem services_report_sections_counterexample:
  "services_report caseless_host ''Compute'' [product_item ''Backup'' ''Vault'', product_item ''apps'' ''Plan'']
   = ''## Services in '' @ [CHR 0x22] @ ''Compute'' @ [CHR 0x22] @ '' Family'' @ ''\<newline>\<newline>''
     @ ''Found 2 service(s) from 2 price records:'' @ ''\<newline>\<newline>''
     @ ''### apps'' @ ''\<newline>'' @ ''Products (1):'' @ ''\<newline>'' @ ''- Plan'' @ ''\<newline>\<newline>''
     @ ''### Backup'' @ ''\<newline>'' @ ''Products (1):'' @ ''\<newline>'' @ ''- Vault'' @ ''\<newline>\<newline>''
   \<and> (''Backup'' :: string) < ''apps''
   \<and> \<not> sorted [''apps'', ''Backup'']
   \<and> localeCompare caseless_host ''apps'' ''Backup'' < 0"
proof -
  let ?items = "[product_item ''Backup'' ''Vault'', product_item ''apps'' ''Plan'']"
  have lw: "map lower ''apps'' = ''apps''" "map lower ''Backup'' = ''backup''"
    by code_simp+
  have cmp: "caseless_compare ''apps'' ''Backup'' = - 1"
    unfolding caseless_compare_def lw by simp
  have cmp': "caseless_compare ''Backup'' ''apps'' = 1"
    unfolding caseless_compare_def lw by simp
  have names: "service_names caseless_host ?items = [''apps'', ''Backup'']"
    by (simp add: service_names_def js_sort_def caseless_host_def cmp')
  have card: "card (serviceName ` set ?items) = 2"
    using length_first_seen [of "map serviceName ?items"] by simp
  have len: "length ?items = 2" by simp
  have nums: "show_nat 1 = ''1''" "show_nat 2 = ''2''"
    by code_simp+
  have p: "products_of ''apps'' ?items = [''Plan'']" "products_of ''Backup'' ?items = [''Vault'']"
    by (simp_all add: products_of_def)
  have blk: "service_block name [product] =
      ''### '' @ name @ ''\<newline>'' @ ''Products (1):'' @ ''\<newline>'' @ ''- '' @ product @ ''\<newline>\<newline>''" for name product
  proof -
    have "length [product] = 1" by simp
    then show ?thesis unfolding service_block_def product_lines_def by (simp add: nums [simplified])
  qed
  have sm: "summary_line 2 2 = ''Found 2 service(s) from 2 price records:'' @ ''\<newline>\<newline>''"
    unfolding summary_line_def nums by simp
  have "services_report caseless_host ''Compute'' ?items
   = ''## Services in '' @ [CHR 0x22] @ ''Compute'' @ [CHR 0x22] @ '' Family'' @ ''\<newline>\<newline>''
     @ ''Found 2 service(s) from 2 price records:'' @ ''\<newline>\<newline>''
     @ ''### apps'' @ ''\<newline>'' @ ''Products (1):'' @ ''\<newline>'' @ ''- Plan'' @ ''\<newline>\<newline>''
     @ ''### Backup'' @ ''\<newline>'' @ ''Products (1):'' @ ''\<newline>'' @ ''- Vault'' @ ''\<newline>\<newline>''"
    unfolding services_report_blocks names card len sm list.map concat.simps p blk by simp
  moreover have "(''Backup'' :: string) < ''apps''" by simp
  moreover have "\<not> sorted [''apps'', ''Backup'']" by simp
  moreover have "localeCompare caseless_host ''apps'' ''Backup'' < 0"
    by (simp add: caseless_host_def cmp)
  ultimately show ?thesis by blast
qed

subsection \<open>The dispatcher and the service families\<close>

lemma length_SERVICE_FAMILIES: "length SERVICE_FAMILIES = 26"
  by (simp add: SERVICE_FAMILIES_def)

lemma distinct_SERVICE_FAMILIES: "distinct SERVICE_FAMILIES"
  by (simp add: SERVICE_FAMILIES_def)

lemma handle_unknown_tool:
  "name \<notin> set tool_names \<Longrightarrow>
   handleToolCall h name args n = Some (Inl (Error (''Unknown tool: '' @ name)), n)"
  by (auto simp: handleToolCall_def tool_names_def)

lemma undefined_read_text:
  "message (undefined_read ''maxResults'') = ''Cannot read properties of undefined (reading 'maxResults')''"
  "message (undefined_read ''priceType'') = ''Cannot read properties of undefined (reading 'priceType')''"
  "message (undefined_read ''serviceName'') = ''Cannot read properties of undefined (reading 'serviceName')''"
  "message (undefined_read ''serviceFamily'') = ''Cannot read properties of undefined (reading 'serviceFamily')''"
  by (simp_all add: undefined_read_def)

lemma call_without_arguments:
  "call_tool h ''query_azure_prices'' None n
     = Some (\<lparr> content_text = ''Error: Cannot read properties of undefined (reading 'maxResults')'',
               isError = True \<rparr>, n)"
  "call_tool h ''compare_vm_prices'' None n
     = Some (\<lparr> content_text = ''Error: Cannot read properties of undefined (reading 'priceType')'',
               isError = True \<rparr>, n)"
  "call_tool h ''get_reservation_prices'' None n
     = Some (\<lparr> content_text = ''Error: Cannot read properties of undefined (reading 'serviceName')'',
               isError = True \<rparr>, n)"
  "call_tool h ''get_services_by_family'' None n
     = Some (\<lparr> content_text = ''Error: Cannot read properties of undefined (reading 'serviceFamily')'',
               isError = True \<rparr>, n)"
  "call_tool h ''get_service_families'' None n
     = Some (\<lparr> content_text = families_report, isError = False \<rparr>, n)"
  by (simp_all add: call_tool_def handleToolCall_def undefined_read_text)

lemma endless_empty_pages:
  assumes "link \<noteq> []" "0 < m"
  shows "paginate (Some m) (page [] (Some link)) []
           \<lparr> pending = replicate k (ok_reply (page [] (Some link))), sent = s \<rparr> = None"
proof (induction k arbitrary: s)
  have hl: "has_link (page [] (Some link))"
    using assms(1) by (simp add: has_link_def page_def)
  have lb: "length_below ([] :: PriceItem list) (Some m)"
    using assms(2) by (simp add: length_below_def)
  case 0
  show ?case by (simp add: paginate_Nil [OF hl lb])
next
  have hl: "has_link (page [] (Some link))"
    using assms(1) by (simp add: has_link_def page_def)
  have lb: "length_below ([] :: PriceItem list) (Some m)"
    using assms(2) by (simp add: length_below_def)
  case (Suc k)
  then show ?case by (simp add: paginate_Cons_ok [OF hl lb])
qed

lemma fetch_endless_empty_pages:
  assumes "link \<noteq> []" "0 < m"
  shows "fetchWithPagination h params (Some m)
           (upstream (replicate k (ok_reply (page [] (Some link))))) = None"
proof (cases k)
  case 0
  then show ?thesis by (simp add: upstream_def fetchWithPagination_Nil)
next
  case (Suc j)
  then show ?thesis
    by (simp add: upstream_def fetchWithPagination_Cons_ok endless_empty_pages [OF assms])
qed

lemma query_never_yields:
  "call_tool h ''query_azure_prices'' (Some empty_object)
     (upstream (replicate k (ok_reply (page [] (Some ''https://prices.azure.com/next''))))) = None"
proof -
  have "capped h (empty_object ''maxResults'') 100 1000 = Some 100"
    by (simp add: capped_falsy empty_object_def)
  then show ?thesis
    by (simp add: call_tool_def handleToolCall_def then_report_def fetch_endless_empty_pages)
qed

text \<open>
  C5, amended. For every tool name and every arguments, absent ones included, the dispatcher
  has no outcome of its own: whenever the handler returns a text it yields that text, and
  whenever the handler throws it yields the message of the error behind \<open>Error: \<close> with the
  error flag set; there is no fault outcome. A tool name outside the five registered ones
  yields the error-flagged text naming it, whatever the upstream; a call without arguments
  yields the error-flagged text of the \<^verbatim>\<open>TypeError\<close> for the four tools that read their
  arguments. The call yields whenever the upstream's replies end the pagination. It does
  not always yield: against an upstream that answers every request with an empty page and
  a link, \<^verbatim>\<open>query_azure_prices\<close> has not returned after any number of replies.
\<close>

theorem call_tool_total:
  "(call_tool h name args n = None \<longleftrightarrow> handleToolCall h name args n = None)
   \<and> (\<forall>e n'. handleToolCall h name args n = Some (Inl e, n') \<longrightarrow>
         call_tool h name args n = Some (\<lparr> content_text = ''Error: '' @ message e, isError = True \<rparr>, n'))
   \<and> (\<forall>report n'. handleToolCall h name args n = Some (Inr report, n') \<longrightarrow>
         call_tool h name args n = Some (\<lparr> content_text = report, isError = False \<rparr>, n'))
   \<and> (name \<notin> set tool_names \<longrightarrow>
         call_tool h name args n
           = Some (\<lparr> content_text = ''Error: Unknown tool: '' @ name, isError = True \<rparr>, n))
   \<and> (settles (pending n) \<longrightarrow> (\<exists>result n'. call_tool h name args n = Some (result, n')))
   \<and> tool_names = [''query_azure_prices'', ''compare_vm_prices'', ''get_service_families'',
                    ''get_reservation_prices'', ''get_services_by_family'']
   \<and> call_tool h ''query_azure_prices'' None n
       = Some (\<lparr> content_text = ''Error: Cannot read properties of undefined (reading 'maxResults')'',
                 isError = True \<rparr>, n)
   \<and> call_tool h ''compare_vm_prices'' None n
       = Some (\<lparr> content_text = ''Error: Cannot read properties of undefined (reading 'priceType')'',
                 isError = True \<rparr>, n)
   \<and> call_tool h ''get_reservation_prices'' None n
       = Some (\<lparr> content_text = ''Error: Cannot read properties of undefined (reading 'serviceName')'',
                 isError = True \<rparr>, n)
   \<and> call_tool h ''get_services_by_family'' None n
       = Some (\<lparr> content_text = ''Error: Cannot read properties of undefined (reading 'serviceFamily')'',
                 isError = True \<rparr>, n)
   \<and> call_tool h ''get_service_families'' None n
       = Some (\<lparr> content_text = families_report, isError = False \<rparr>, n)
   \<and> (\<forall>k. call_tool h ''query_azure_prices'' (Some empty_object)
              (upstream (replicate k (ok_reply (page [] (Some ''https://prices.azure.com/next'')))))
            = None)"
proof (intro conjI allI impI)
  show "(call_tool h name args n = None) = (handleToolCall h name args n = None)"
    by (simp add: call_tool_def split: option.splits prod.splits sum.splits)
  show "call_tool h name args n = Some (\<lparr> content_text = ''Error: '' @ message e, isError = True \<rparr>, n')"
    if "handleToolCall h name args n = Some (Inl e, n')" for e n'
    using that by (simp add: call_tool_def)
  show "call_tool h name args n = Some (\<lparr> content_text = report, isError = False \<rparr>, n')"
    if "handleToolCall h name args n = Some (Inr report, n')" for report n'
    using that by (simp add: call_tool_def)
  show "call_tool h name args n
           = Some (\<lparr> content_text = ''Error: Unknown tool: '' @ name, isError = True \<rparr>, n)"
    if "name \<notin> set tool_names"
    using handle_unknown_tool [OF that, of h args n] by (simp add: call_tool_def)
  show "\<exists>result n'. call_tool h name args n = Some (result, n')" if st: "settles (pending n)"
  proof -
    obtain r n' where "handleToolCall h name args n = Some (r, n')"
      using handleToolCall_returns [OF st] by blast
    then show ?thesis by (cases r) (simp_all add: call_tool_def)
  qed
  show "tool_names = [''query_azure_prices'', ''compare_vm_prices'', ''get_service_families'',
                    ''get_reservation_prices'', ''get_services_by_family'']"
    by (simp add: tool_names_def)
  show "call_tool h ''query_azure_prices'' None n
       = Some (\<lparr> content_text = ''Error: Cannot read properties of undefined (reading 'maxResults')'',
                 isError = True \<rparr>, n)"
    by (rule call_without_arguments)
  show "call_tool h ''compare_vm_prices'' None n
       = Some (\<lparr> content_text = ''Error: Cannot read properties of undefined (reading 'priceType')'',
                 isError = True \<rparr>, n)"
    by (rule call_without_arguments)
  show "call_tool h ''get_reservation_prices'' None n
       = Some (\<lparr> content_text = ''Error: Cannot read properties of undefined (reading 'serviceName')'',
                 isError = True \<rparr>, n)"
    by (rule call_without_arguments)
  show "call_tool h ''get_services_by_family'' None n
       = Some (\<lparr> content_text = ''Error: Cannot read properties of undefined (reading 'serviceFamily')'',
                 isError = True \<rparr>, n)"
    by (rule call_without_arguments)
  show "call_tool h ''get_service_families'' None n
       = Some (\<lparr> content_text = families_report, isError = False \<rparr>, n)"
    by (rule call_without_arguments)
  show "call_tool h ''query_azure_prices'' (Some empty_object)
              (upstream (replicate k (ok_reply (page [] (Some ''https://prices.azure.com/next'')))))
            = None" for k
    by (rule query_never_yields)
qed

lemma handle_query_http_error:
  "handleToolCall h ''query_azure_prices'' (Some empty_object)
     (upstream [Response 503 ''Service Unavailable'' (Unparsable [])])
   = Some (Inl (Error ''API request failed: 503 Service Unavailable''),
           \<lparr> pending = [], sent = [Query [(''api-version'', API_VERSION)]] \<rparr>)"
proof -
  have "show_nat 503 = ''503''" by code_simp
  then show ?thesis
    by (simp add: handleToolCall_def then_report_def fetchWithPagination_def queryAzurePrices_def
        upstream_def ok_def searchParams_def buildFilter_empty_object empty_object_def [symmetric])
      (simp add: empty_object_def)
qed

theorem call_tool_total_witness:
  "call_tool example_host ''list_prices'' (Some empty_object) (upstream [])
     = Some (\<lparr> content_text = ''Error: Unknown tool: list_prices'', isError = True \<rparr>, upstream [])
   \<and> call_tool example_host ''query_azure_prices'' (Some empty_object)
        (upstream [Response 503 ''Service Unavailable'' (Unparsable [])])
     = Some (\<lparr> content_text = ''Error: API request failed: 503 Service Unavailable'', isError = True \<rparr>,
             \<lparr> pending = [], sent = [Query [(''api-version'', API_VERSION)]] \<rparr>)
   \<and> (\<exists>result n'. call_tool example_host ''get_reservation_prices'' (Some empty_object)
          (upstream [Rejected ''fetch failed'']) = Some (result, n'))"
proof (intro conjI)
  have "''list_prices'' \<notin> set tool_names" by (simp add: tool_names_def)
  with call_tool_total [of example_host "''list_prices''" "Some empty_object" "upstream []"]
  show "call_tool example_host ''list_prices'' (Some empty_object) (upstream [])
     = Some (\<lparr> content_text = ''Error: Unknown tool: list_prices'', isError = True \<rparr>, upstream [])"
    by simp
  from call_tool_total [of example_host "''query_azure_prices''" "Some empty_object"
      "upstream [Response 503 ''Service Unavailable'' (Unparsable [])]"]
    handle_query_http_error [of example_host]
  show "call_tool example_host ''query_azure_prices'' (Some empty_object)
        (upstream [Response 503 ''Service Unavailable'' (Unparsable [])])
     = Some (\<lparr> content_text = ''Error: API request failed: 503 Service Unavailable'', isError = True \<rparr>,
             \<lparr> pending = [], sent = [Query [(''api-version'', API_VERSION)]] \<rparr>)"
    by simp
  have "settles (pending (upstream [Rejected ''fetch failed'']))"
    by (simp add: settles_def upstream_def)
  with call_tool_total [of example_host "''get_reservation_prices''" "Some empty_object"
      "upstream [Rejected ''fetch failed'']"]
  show "\<exists>result n'. call_tool example_host ''get_reservation_prices'' (Some empty_object)
          (upstream [Rejected ''fetch failed'']) = Some (result, n')"
    by blast
qed

text \<open>
  The claim as first stated, that the dispatcher yields for every pair, fails: the
  upstream answers each request of \<^verbatim>\<open>query_azure_prices\<close> with an empty page that links
  on, the loop at index.ts 264-269 goes round once more for each, and after three such
  replies (as after any number of them) the call has not returned.
\<close>

theorem call_tool_total_counterexample:
  "call_tool example_host ''query_azure_prices'' (Some empty_object)
     (upstream [ok_reply (page [] (Some ''https://prices.azure.com/next'')),
                ok_reply (page [] (Some ''https://prices.azure.com/next'')),
                ok_reply (page [] (Some ''https://prices.azure.com/next''))])
   = None"
  using query_never_yields [of example_host 3] by (simp add: numeral_3_eq_3)

text \<open>
  C6, amended. When the call carries arguments and their \<open>serviceFamily\<close> (an absent one
  included) is not one of the 26 families, \<^verbatim>\<open>get_services_by_family\<close> returns (it does not
  throw) the message that names the value and points at \<^verbatim>\<open>get_service_families\<close>, and the
  result is not error-flagged. When the call carries no arguments at all, reading
  \<open>serviceFamily\<close> throws and the result is error-flagged. In both cases the upstream is
  left as it was: nothing has been sent and no reply consumed.
\<close>

theorem unknown_family_no_fetch:
  "(args ''serviceFamily'' \<notin> set (map JStr SERVICE_FAMILIES) \<longrightarrow>
      handleToolCall h ''get_services_by_family'' (Some args) n
        = Some (Inr (''Unknown service family: '' @ [CHR 0x22] @ to_string h (args ''serviceFamily'')
                     @ [CHR 0x22] @ ''. Use get_service_families to see valid options.''), n)
      \<and> call_tool h ''get_services_by_family'' (Some args) n
        = Some (\<lparr> content_text =
                    ''Unknown service family: '' @ [CHR 0x22] @ to_string h (args ''serviceFamily'')
                    @ [CHR 0x22] @ ''. Use get_service_families to see valid options.'',
                  isError = False \<rparr>, n))
   \<and> handleToolCall h ''get_services_by_family'' None n
       = Some (Inl (Error ''Cannot read properties of undefined (reading 'serviceFamily')''), n)
   \<and> call_tool h ''get_services_by_family'' None n
       = Some (\<lparr> content_text = ''Error: Cannot read properties of undefined (reading 'serviceFamily')'',
                 isError = True \<rparr>, n)
   \<and> length SERVICE_FAMILIES = 26"
  by (simp add: handleToolCall_def call_tool_def dquoted_def length_SERVICE_FAMILIES
      undefined_read_def)

theorem unknown_family_no_fetch_witness:
  "handleToolCall example_host ''get_services_by_family''
     (Some (empty_object(''serviceFamily'' := JStr ''Quantum''))) (upstream [])
   = Some (Inr (''Unknown service family: '' @ [CHR 0x22] @ ''Quantum'' @ [CHR 0x22]
                @ ''. Use get_service_families to see valid options.''), upstream [])
   \<and> handleToolCall example_host ''get_services_by_family'' (Some empty_object) (upstream [])
   = Some (Inr (''Unknown service family: '' @ [CHR 0x22] @ ''undefined'' @ [CHR 0x22]
                @ ''. Use get_service_families to see valid options.''), upstream [])"
proof (intro conjI)
  have "(empty_object(''serviceFamily'' := JStr ''Quantum'')) ''serviceFamily''
          \<notin> set (map JStr SERVICE_FAMILIES)"
    by (simp add: SERVICE_FAMILIES_def)
  with unknown_family_no_fetch [of "empty_object(''serviceFamily'' := JStr ''Quantum'')" example_host "upstream []"]
  show "handleToolCall example_host ''get_services_by_family''
     (Some (empty_object(''serviceFamily'' := JStr ''Quantum''))) (upstream [])
   = Some (Inr (''Unknown service family: '' @ [CHR 0x22] @ ''Quantum'' @ [CHR 0x22]
                @ ''. Use get_service_families to see valid options.''), upstream [])"
    by simp
  have "empty_object ''serviceFamily'' \<notin> set (map JStr SERVICE_FAMILIES)"
    by (auto simp add: empty_object_def)
  with unknown_family_no_fetch [of empty_object example_host "upstream []"]
  show "handleToolCall example_host ''get_services_by_family'' (Some empty_object) (upstream [])
   = Some (Inr (''Unknown service family: '' @ [CHR 0x22] @ ''undefined'' @ [CHR 0x22]
                @ ''. Use get_service_families to see valid options.''), upstream [])"
    by (simp add: empty_object_def)
qed

text \<open>
  The claim as first stated covers the call without arguments, whose \<open>serviceFamily\<close> is
  no member of the enumeration either; there the result is not the normal message but an
  error-flagged one.
\<close>

theorem unknown_family_no_fetch_counterexample:
  "call_tool example_host ''get_services_by_family'' None (upstream [])
   = Some (\<lparr> content_text = ''Error: Cannot read properties of undefined (reading 'serviceFamily')'',
             isError = True \<rparr>, upstream [])"
  by (rule call_without_arguments)

text \<open>
  C9. \<^verbatim>\<open>get_service_families\<close> returns, for every arguments (absent ones included) and
  without a fetch, the fixed text: four header lines and then one line \<open>- family\<close> for each
  of the 26 distinct families of \<open>SERVICE_FAMILIES\<close>. \<^verbatim>\<open>get_services_by_family\<close> tests its
  \<open>serviceFamily\<close> against the same list: a member goes on to the fetch, anything else gets
  the unknown-family message.
\<close>

theorem service_families_report:
  "handleToolCall h ''get_service_families'' arguments n = Some (Inr families_report, n)
   \<and> families_report =
       ''## Azure Service Families\<newline>\<newline>The following service families can be used to filter Azure prices:\<newline>\<newline>- Analytics\<newline>- Azure Arc\<newline>- Azure Communication Services\<newline>- Azure Security\<newline>- Azure Stack\<newline>- Compute\<newline>- Containers\<newline>- Data\<newline>- Databases\<newline>- Developer Tools\<newline>- Dynamics\<newline>- Gaming\<newline>- Integration\<newline>- Internet of Things\<newline>- Management and Governance\<newline>- Microsoft Syntex\<newline>- Mixed Reality\<newline>- Networking\<newline>- Other\<newline>- Power Platform\<newline>- Quantum Computing\<newline>- Security\<newline>- Storage\<newline>- Telecommunications\<newline>- Web\<newline>- Windows Virtual Desktop''
   \<and> lines_of families_report
       = [''## Azure Service Families'', [],
          ''The following service families can be used to filter Azure prices:'', []]
         @ map (\<lambda>family. ''- '' @ family) SERVICE_FAMILIES
   \<and> length SERVICE_FAMILIES = 26
   \<and> distinct SERVICE_FAMILIES
   \<and> (if args ''serviceFamily'' \<in> set (map JStr SERVICE_FAMILIES)
      then handleToolCall h ''get_services_by_family'' (Some args) n
           = then_report
               (fetchWithPagination h (empty_object(''serviceFamily'' := args ''serviceFamily''))
                  (capped h (args ''maxResults'') 500 2000) n)
               (\<lambda>items. if length items = 0
                         then ''No services found for service family: '' @ to_string h (args ''serviceFamily'')
                         else services_report h (to_string h (args ''serviceFamily'')) items)
      else handleToolCall h ''get_services_by_family'' (Some args) n
           = Some (Inr (''Unknown service family: '' @ [CHR 0x22] @ to_string h (args ''serviceFamily'')
                        @ [CHR 0x22] @ ''. Use get_service_families to see valid options.''), n))"
proof (intro conjI)
  show "handleToolCall h ''get_service_families'' arguments n = Some (Inr families_report, n)"
    by (simp add: handleToolCall_def)
  show literal: "families_report =
       ''## Azure Service Families\<newline>\<newline>The following service families can be used to filter Azure prices:\<newline>\<newline>- Analytics\<newline>- Azure Arc\<newline>- Azure Communication Services\<newline>- Azure Security\<newline>- Azure Stack\<newline>- Compute\<newline>- Containers\<newline>- Data\<newline>- Databases\<newline>- Developer Tools\<newline>- Dynamics\<newline>- Gaming\<newline>- Integration\<newline>- Internet of Things\<newline>- Management and Governance\<newline>- Microsoft Syntex\<newline>- Mixed Reality\<newline>- Networking\<newline>- Other\<newline>- Power Platform\<newline>- Quantum Computing\<newline>- Security\<newline>- Storage\<newline>- Telecommunications\<newline>- Web\<newline>- Windows Virtual Desktop''"
    by (simp add: families_report_def SERVICE_FAMILIES_def nl_def)
  show "lines_of families_report
       = [''## Azure Service Families'', [],
          ''The following service families can be used to filter Azure prices:'', []]
         @ map (\<lambda>family. ''- '' @ family) SERVICE_FAMILIES"
    unfolding literal by (simp add: SERVICE_FAMILIES_def)
  show "length SERVICE_FAMILIES = 26" by (rule length_SERVICE_FAMILIES)
  show "distinct SERVICE_FAMILIES" by (rule distinct_SERVICE_FAMILIES)
  show "if args ''serviceFamily'' \<in> set (map JStr SERVICE_FAMILIES)
      then handleToolCall h ''get_services_by_family'' (Some args) n
           = then_report
               (fetchWithPagination h (empty_object(''serviceFamily'' := args ''serviceFamily''))
                  (capped h (args ''maxResults'') 500 2000) n)
               (\<lambda>items. if length items = 0
                         then ''No services found for service family: '' @ to_string h (args ''serviceFamily'')
                         else services_report h (to_string h (args ''serviceFamily'')) items)
      else handleToolCall h ''get_services_by_family'' (Some args) n
           = Some (Inr (''Unknown service family: '' @ [CHR 0x22] @ to_string h (args ''serviceFamily'')
                        @ [CHR 0x22] @ ''. Use get_service_families to see valid options.''), n)"
    by (simp add: handleToolCall_def dquoted_def Let_def)
qed

theorem service_families_report_witness:
  "handleToolCall example_host ''get_service_families'' None (upstream [])
     = Some (Inr
       ''## Azure Service Families\<newline>\<newline>The following service families can be used to filter Azure prices:\<newline>\<newline>- Analytics\<newline>- Azure Arc\<newline>- Azure Communication Services\<newline>- Azure Security\<newline>- Azure Stack\<newline>- Compute\<newline>- Containers\<newline>- Data\<newline>- Databases\<newline>- Developer Tools\<newline>- Dynamics\<newline>- Gaming\<newline>- Integration\<newline>- Internet of Things\<newline>- Management and Governance\<newline>- Microsoft Syntex\<newline>- Mixed Reality\<newline>- Networking\<newline>- Other\<newline>- Power Platform\<newline>- Quantum Computing\<newline>- Security\<newline>- Storage\<newline>- Telecommunications\<newline>- Web\<newline>- Windows Virtual Desktop'', upstream [])
   \<and> handleToolCall example_host ''get_services_by_family''
        (Some (empty_object(''serviceFamily'' := JStr ''Compute''))) (upstream []) = None
   \<and> handleToolCall example_host ''get_services_by_family''
        (Some (empty_object(''serviceFamily'' := JStr ''compute''))) (upstream [])
     = Some (Inr (''Unknown service family: '' @ [CHR 0x22] @ ''compute'' @ [CHR 0x22]
                  @ ''. Use get_service_families to see valid options.''), upstream [])"
proof (intro conjI)
  note inst = service_families_report [of example_host None "upstream []"]
  from inst [of empty_object]
  show "handleToolCall example_host ''get_service_families'' None (upstream [])
     = Some (Inr
       ''## Azure Service Families\<newline>\<newline>The following service families can be used to filter Azure prices:\<newline>\<newline>- Analytics\<newline>- Azure Arc\<newline>- Azure Communication Services\<newline>- Azure Security\<newline>- Azure Stack\<newline>- Compute\<newline>- Containers\<newline>- Data\<newline>- Databases\<newline>- Developer Tools\<newline>- Dynamics\<newline>- Gaming\<newline>- Integration\<newline>- Internet of Things\<newline>- Management and Governance\<newline>- Microsoft Syntex\<newline>- Mixed Reality\<newline>- Networking\<newline>- Other\<newline>- Power Platform\<newline>- Quantum Computing\<newline>- Security\<newline>- Storage\<newline>- Telecommunications\<newline>- Web\<newline>- Windows Virtual Desktop'', upstream [])"
    by simp
  have m: "(empty_object(''serviceFamily'' := JStr ''Compute'')) ''serviceFamily''
          \<in> set (map JStr SERVICE_FAMILIES)"
    by (simp add: SERVICE_FAMILIES_def)
  have "fetchWithPagination example_host p c (upstream []) = None" for p c
    by (simp add: fetchWithPagination_def queryAzurePrices_def upstream_def)
  with m inst [of "empty_object(''serviceFamily'' := JStr ''Compute'')"]
  show "handleToolCall example_host ''get_services_by_family''
        (Some (empty_object(''serviceFamily'' := JStr ''Compute''))) (upstream []) = None"
    by (simp add: then_report_def)
  have "(empty_object(''serviceFamily'' := JStr ''compute'')) ''serviceFamily''
          \<notin> set (map JStr SERVICE_FAMILIES)"
    by (simp add: SERVICE_FAMILIES_def)
  with inst [of "empty_object(''serviceFamily'' := JStr ''compute'')"]
  show "handleToolCall example_host ''get_services_by_family''
        (Some (empty_object(''serviceFamily'' := JStr ''compute''))) (upstream [])
     = Some (Inr (''Unknown service family: '' @ [CHR 0x22] @ ''compute'' @ [CHR 0x22]
                  @ ''. Use get_service_families to see valid options.''), upstream [])"
    by simp
qed

end
